theory Spec2Isabelle
  imports Main "HOL-Library.Word"
begin

section \<open>Notification history provider (internal/providers/notifications/setup.go)\<close>

text \<open>
  A shallow embedding of the history store of the notifications provider: the
  package-level variables \<^verbatim>\<open>history\<close> and \<^verbatim>\<open>nextID\<close>, the functions that
  mutate them, the activation handler and the query projection.

  What the Go code takes from its environment is an explicit argument here:
  \<^item> every \<^verbatim>\<open>time.Now()\<close> is a parameter of type \<open>time\<close>;
  \<^item> every \<^verbatim>\<open>for k, v := range m\<close> over a Go map takes the list of keys in the
    order the runtime visits them (Go leaves that order unspecified);
  \<^item> the outcome of file I/O is a parameter of \<open>saveToFile\<close> and \<open>loadFromFile\<close>.
  Everything observable besides the two variables (log lines, clipboard calls, emitted
  signals, channel sends, spawned goroutines) is appended to the \<open>trace\<close> of the state.
\<close>

subsection \<open>Data\<close>

type_synonym u32 = "32 word"
type_synonym i32 = "32 word" \<comment> \<open>Go \<^verbatim>\<open>int32\<close>; read with \<open>sint\<close>\<close>

text \<open>A \<^verbatim>\<open>time.Time\<close> instant; \<^verbatim>\<open>Before\<close> is \<open><\<close>, \<^verbatim>\<open>Compare\<close> the order of \<open>int\<close>.\<close>
type_synonym time = int

text \<open>The dynamic value held by a \<^verbatim>\<open>dbus.Variant\<close> (an \<^verbatim>\<open>interface{}\<close> in Go).\<close>
datatype hint_value = HString string | HInt int | HBool bool | HByte "8 word"

datatype variant = Variant (Value: hint_value)

record Config =
  Icon :: string
  MinScore :: i32
  MaxItems :: int
  Persist :: bool

record Notification =
  ID :: u32
  AppName :: string
  AppIcon :: string
  Summary :: string
  Body :: string
  Actions :: "string list"
  ExpireTimeout :: i32
  Time :: time
  Hints :: "string \<rightharpoonup> hint_value"

datatype effect =
    LogError string string
  | WriteFile "u32 \<rightharpoonup> Notification"
  | GoSaveToFile
  | ProviderUpdated string
  | WlCopy string
  | Emit string u32 u32

record state =
  history :: "u32 \<rightharpoonup> Notification"
  nextID :: u32
  cacheFile :: "(u32 \<rightharpoonup> Notification) option"
  conn :: bool
  trace :: "effect list"

text \<open>The package-level initialisers: an empty map, \<^verbatim>\<open>nextID = 1\<close>, no connection.\<close>
definition init :: "(u32 \<rightharpoonup> Notification) option \<Rightarrow> state" where
  "init f = \<lparr>history = Map.empty, nextID = 1, cacheFile = f, conn = False, trace = []\<rparr>"

text \<open>The configuration that \<^verbatim>\<open>Setup\<close> starts from, before the user's file is read.\<close>
definition defaultConfig :: Config where
  "defaultConfig = \<lparr>Icon = ''preferences-system-notifications'', MinScore = 30,
                     MaxItems = 100, Persist = True\<rparr>"

definition slog_Error :: "string \<Rightarrow> string \<Rightarrow> state \<Rightarrow> state" where
  "slog_Error key msg s = s\<lparr>trace := trace s @ [LogError key msg]\<rparr>"

text \<open>\<^verbatim>\<open>len(history)\<close>, as a Go \<^verbatim>\<open>int\<close>.\<close>
definition len :: "(u32 \<rightharpoonup> Notification) \<Rightarrow> int" where
  "len h = int (card (dom h))"

text \<open>
  \<open>visits ks h\<close>: the key list \<open>ks\<close> is an order in which a \<^verbatim>\<open>range\<close> loop may
  visit the map \<open>h\<close>: every key once.
\<close>
definition visits :: "u32 list \<Rightarrow> (u32 \<rightharpoonup> Notification) \<Rightarrow> bool" where
  "visits ks h = (distinct ks \<and> set ks = dom h)"

subsection \<open>Persistence\<close>

datatype save_outcome = SaveOk | EncodeFailed | MkdirFailed | WriteFailed

text \<open>
  \<^verbatim>\<open>saveToFile\<close>: encode the map, create the directory, write the file; each failure
  is logged and ends the call. The file content is kept as the map it decodes to (the
  gob codec itself is the standard library's and is not modelled).
\<close>
definition saveToFile :: "save_outcome \<Rightarrow> state \<Rightarrow> state" where
  "saveToFile io s =
     (case io of
        EncodeFailed \<Rightarrow> slog_Error ''encode'' ''err'' s
      | MkdirFailed \<Rightarrow> slog_Error ''createdirs'' ''err'' s
      | WriteFailed \<Rightarrow> slog_Error ''writefile'' ''err'' (s\<lparr>trace := trace s @ [WriteFile (history s)]\<rparr>)
      | SaveOk \<Rightarrow> s\<lparr>cacheFile := Some (history s), trace := trace s @ [WriteFile (history s)]\<rparr>)"

text \<open>
  What reading the cache file comes to. \<open>DecodeFailed p\<close>: the gob decoder failed, after
  it had stored the entries \<open>p\<close> in the map.
\<close>
datatype load_outcome = LoadOk | ReadFailed | DecodeFailed "u32 \<rightharpoonup> Notification"

text \<open>The loop of \<^verbatim>\<open>loadFromFile\<close> that raises \<^verbatim>\<open>nextID\<close>; \<open>+\<close> on \<open>u32\<close> wraps as Go's does.\<close>
fun bumpNextID :: "u32 list \<Rightarrow> u32 \<Rightarrow> u32" where
  "bumpNextID [] next = next"
| "bumpNextID (id' # ids) next = bumpNextID ids (if id' \<ge> next then id' + 1 else next)"

text \<open>
  \<^verbatim>\<open>loadFromFile\<close>. A read error returns at once. A decode error is logged and the loop
  over the map still runs, on the map with the entries the decoder stored before it
  failed. A successful decode adds the file's entries to \<^verbatim>\<open>history\<close>. \<open>ks\<close> is the order
  in which the final loop visits the keys.
\<close>
definition loadFromFile :: "load_outcome \<Rightarrow> u32 list \<Rightarrow> state \<Rightarrow> state" where
  "loadFromFile io ks s =
     (case cacheFile s of
        None \<Rightarrow> s
      | Some m \<Rightarrow>
          (case io of
             ReadFailed \<Rightarrow> slog_Error ''load'' ''err'' s
           | DecodeFailed p \<Rightarrow>
               (let s1 = slog_Error ''decoding'' ''err'' (s\<lparr>history := history s ++ p\<rparr>)
                in s1\<lparr>nextID := bumpNextID ks (nextID s1)\<rparr>)
           | LoadOk \<Rightarrow>
               (let s1 = s\<lparr>history := history s ++ m\<rparr>
                in s1\<lparr>nextID := bumpNextID ks (nextID s1)\<rparr>)))"

subsection \<open>The history store\<close>

text \<open>
  The loop of \<^verbatim>\<open>trimHistory\<close> over the map, carrying \<^verbatim>\<open>(oldestID, oldestTime)\<close>.
  A key of \<open>ks\<close> that is not in the map is skipped (a \<^verbatim>\<open>range\<close> never yields one).
\<close>
fun oldest :: "(u32 \<rightharpoonup> Notification) \<Rightarrow> u32 list \<Rightarrow> u32 \<times> time \<Rightarrow> u32 \<times> time" where
  "oldest h [] acc = acc"
| "oldest h (id' # ids) (oldestID, oldestTime) =
     (case h id' of
        None \<Rightarrow> oldest h ids (oldestID, oldestTime)
      | Some n \<Rightarrow>
          if Time n < oldestTime then oldest h ids (id', Time n)
          else oldest h ids (oldestID, oldestTime))"

text \<open>\<^verbatim>\<open>trimHistory\<close>: \<open>now\<close> is its \<^verbatim>\<open>time.Now()\<close>, \<open>ks\<close> the order of its loop.\<close>
definition trimHistory :: "time \<Rightarrow> u32 list \<Rightarrow> state \<Rightarrow> state" where
  "trimHistory now ks s =
     (let oldestID = fst (oldest (history s) ks (0, now))
      in if oldestID > 0 then s\<lparr>history := (history s)(oldestID := None)\<rparr> else s)"

text \<open>
  What one call of \<^verbatim>\<open>storeNotification\<close> reads from its environment. (The Go variable
  \<^verbatim>\<open>id\<close> is written \<open>id'\<close> throughout, \<open>id\<close> being the identity function of HOL.)
\<close>
record env =
  now_store :: time \<comment> \<open>\<^verbatim>\<open>time.Now()\<close> in the record literal\<close>
  now_trim :: time \<comment> \<open>\<^verbatim>\<open>time.Now()\<close> in \<^verbatim>\<open>trimHistory\<close>, when it runs\<close>
  order :: "u32 list" \<comment> \<open>the order of the loop in \<^verbatim>\<open>trimHistory\<close>, when it runs\<close>

text \<open>The ID that \<^verbatim>\<open>storeNotification\<close> chooses (lemma \<open>storeNotification_fst\<close>).\<close>
definition chosenID :: "u32 \<Rightarrow> state \<Rightarrow> u32" where
  "chosenID replacesID s = (if replacesID > 0 then replacesID else nextID s)"

definition storeNotification ::
  "Config \<Rightarrow> env \<Rightarrow> string \<Rightarrow> u32 \<Rightarrow> string \<Rightarrow> string \<Rightarrow> string \<Rightarrow> string list \<Rightarrow>
   (string \<rightharpoonup> hint_value) \<Rightarrow> i32 \<Rightarrow> state \<Rightarrow> u32 \<times> state" where
  "storeNotification config e appName replacesID appIcon summary body actions hints expireTimeout s =
     (let (id', s1) = (if replacesID > 0 then (replacesID, s)
                      else (nextID s, s\<lparr>nextID := nextID s + 1\<rparr>));
          notification = \<lparr>ID = id', AppName = appName, AppIcon = appIcon, Summary = summary,
                          Body = body, Actions = actions, ExpireTimeout = expireTimeout,
                          Time = now_store e, Hints = hints\<rparr>;
          s2 = s1\<lparr>history := (history s1)(id' \<mapsto> notification)\<rparr>;
          s3 = (if len (history s2) > MaxItems config then trimHistory (now_trim e) (order e) s2 else s2);
          s4 = (if Persist config then s3\<lparr>trace := trace s3 @ [GoSaveToFile]\<rparr> else s3);
          s5 = s4\<lparr>trace := trace s4 @ [ProviderUpdated ''notifications:new'']\<rparr>
      in (id', s5))"

text \<open>
  The map of \<^verbatim>\<open>storeNotification\<close> right after \<^verbatim>\<open>history[id] = notification\<close>, before
  the trim (lemma \<open>storeNotification_history\<close>).
\<close>
definition inserted ::
  "env \<Rightarrow> string \<Rightarrow> u32 \<Rightarrow> string \<Rightarrow> string \<Rightarrow> string \<Rightarrow> string list \<Rightarrow>
   (string \<rightharpoonup> hint_value) \<Rightarrow> i32 \<Rightarrow> state \<Rightarrow> (u32 \<rightharpoonup> Notification)" where
  "inserted e appName replacesID appIcon summary body actions hints expireTimeout s =
     (history s)(chosenID replacesID s \<mapsto>
        \<lparr>ID = chosenID replacesID s, AppName = appName, AppIcon = appIcon, Summary = summary,
         Body = body, Actions = actions, ExpireTimeout = expireTimeout,
         Time = now_store e, Hints = hints\<rparr>)"

subsection \<open>The bus service\<close>

text \<open>\<^verbatim>\<open>notificationServer.Notify\<close>: unwrap the hints, store, return the ID.\<close>
definition Notify ::
  "Config \<Rightarrow> env \<Rightarrow> string \<Rightarrow> u32 \<Rightarrow> string \<Rightarrow> string \<Rightarrow> string \<Rightarrow> string list \<Rightarrow>
   (string \<rightharpoonup> variant) \<Rightarrow> i32 \<Rightarrow> state \<Rightarrow> u32 \<times> state" where
  "Notify config e appName replacesID appIcon summary body actions hints expireTimeout s =
     (let hintsMap = (\<lambda>k. map_option Value (hints k))
      in storeNotification config e appName replacesID appIcon summary body actions hintsMap expireTimeout s)"

text \<open>\<^verbatim>\<open>notificationServer.CloseNotification\<close>.\<close>
definition CloseNotification :: "Config \<Rightarrow> save_outcome \<Rightarrow> u32 \<Rightarrow> state \<Rightarrow> state" where
  "CloseNotification config io id' s =
     (let s1 = s\<lparr>history := (history s)(id' := None)\<rparr>;
          s2 = (if Persist config then saveToFile io s1 else s1)
      in if conn s2 then s2\<lparr>trace := trace s2 @ [Emit ''NotificationClosed'' id' 3]\<rparr> else s2)"

text \<open>A value in the body of a \<^verbatim>\<open>dbus.Signal\<close> (\<^verbatim>\<open>[]interface{}\<close>), by its dynamic type.\<close>
datatype dbus_value =
    DString string
  | DUint32 u32
  | DInt32 i32
  | DStrings "string list"
  | DVariantMap "string \<rightharpoonup> variant"
  | DBool bool

record signal =
  Name :: string
  SigBody :: "dbus_value list"

text \<open>The type assertions \<^verbatim>\<open>v, _ := x.(T)\<close>: the zero value of \<open>T\<close> when \<open>x\<close> is no \<open>T\<close>.\<close>
fun asString :: "dbus_value \<Rightarrow> string" where
  "asString (DString s) = s"
| "asString _ = []"

fun asUint32 :: "dbus_value \<Rightarrow> u32" where
  "asUint32 (DUint32 n) = n"
| "asUint32 _ = 0"

fun asInt32 :: "dbus_value \<Rightarrow> i32" where
  "asInt32 (DInt32 n) = n"
| "asInt32 _ = 0"

fun asStrings :: "dbus_value \<Rightarrow> string list" where
  "asStrings (DStrings xs) = xs"
| "asStrings _ = []"

fun asVariantMap :: "dbus_value \<Rightarrow> (string \<rightharpoonup> variant)" where
  "asVariantMap (DVariantMap m) = m"
| "asVariantMap _ = Map.empty"

datatype panic = IndexOutOfRange

text \<open>\<^verbatim>\<open>handleNotifySignal\<close>; indexing a body shorter than 8 panics.\<close>
definition handleNotifySignal :: "Config \<Rightarrow> env \<Rightarrow> dbus_value list \<Rightarrow> state \<Rightarrow> panic + state" where
  "handleNotifySignal config e body s =
     (if length body < 8 then Inl IndexOutOfRange
      else
        (let appName = asString (body ! 0);
             replacesID = asUint32 (body ! 1);
             appIcon = asString (body ! 2);
             summary = asString (body ! 3);
             bodyText = asString (body ! 4);
             actions = asStrings (body ! 5);
             hints = asVariantMap (body ! 6);
             expireTimeout = asInt32 (body ! 7);
             hintsMap = (\<lambda>k. map_option Value (hints k))
         in Inr (snd (storeNotification config e appName replacesID appIcon summary bodyText
                        actions hintsMap expireTimeout s))))"

definition dbusInterface :: string where
  "dbusInterface = ''org.freedesktop.Notifications''"

text \<open>One turn of the loop of \<^verbatim>\<open>listenForSignals\<close>, on the signal read from the channel.\<close>
definition listenForSignals_step :: "Config \<Rightarrow> env \<Rightarrow> signal \<Rightarrow> state \<Rightarrow> panic + state" where
  "listenForSignals_step config e sig s =
     (if Name sig = dbusInterface @ ''.Notify'' \<and> length (SigBody sig) \<ge> 8
      then handleNotifySignal config e (SigBody sig) s
      else Inr s)"

subsection \<open>Decimal identifiers\<close>

text \<open>
  \<^verbatim>\<open>strconv.FormatUint(n, 10)\<close> and \<^verbatim>\<open>strconv.ParseUint(s, 10, 32)\<close> of the standard
  library, after their documentation and source: decimal digits without sign, a syntax
  error on the empty string and on the first byte that is no digit, a range error (with
  the value \<open>2^32 - 1\<close>) as soon as the value read so far exceeds \<open>2^32 - 1\<close>.
\<close>

definition digitChar :: "nat \<Rightarrow> char" where
  "digitChar d = ''0123456789'' ! d"

fun FormatUint :: "nat \<Rightarrow> string" where
  "FormatUint n = (if n < 10 then [digitChar n] else FormatUint (n div 10) @ [digitChar (n mod 10)])"

datatype NumError = ErrSyntax | ErrRange

definition isDigit :: "char \<Rightarrow> bool" where
  "isDigit c = (48 \<le> (of_char c :: nat) \<and> (of_char c :: nat) \<le> 57)"

definition digitVal :: "char \<Rightarrow> nat" where
  "digitVal c = of_char c - 48"

definition maxVal :: nat where
  "maxVal = 2 ^ 32 - 1"

definition cutoff :: nat where
  "cutoff = (2 ^ 64 - 1) div 10 + 1"

text \<open>
  The loop of \<^verbatim>\<open>ParseUint\<close> over the bytes. In Go \<^verbatim>\<open>n1 := n*10 + d\<close> is computed in
  \<^verbatim>\<open>uint64\<close> and \<^verbatim>\<open>n1 < n || n1 > maxVal\<close> catches the wrap-around; on \<open>nat\<close> the sum
  does not wrap and \<open>n1 > maxVal\<close> covers both.
\<close>
fun parseDigits :: "nat \<Rightarrow> string \<Rightarrow> nat \<times> NumError option" where
  "parseDigits n [] = (n, None)"
| "parseDigits n (c # cs) =
     (if \<not> isDigit c then (0, Some ErrSyntax)
      else if n \<ge> cutoff then (maxVal, Some ErrRange)
      else if n * 10 + digitVal c > maxVal then (maxVal, Some ErrRange)
      else parseDigits (n * 10 + digitVal c) cs)"

definition ParseUint :: "string \<Rightarrow> nat \<times> NumError option" where
  "ParseUint s = (if s = [] then (0, Some ErrSyntax) else parseDigits 0 s)"

subsection \<open>The activation handler\<close>

definition ActionDismiss :: string where "ActionDismiss = ''dismiss''"
definition ActionDismissAll :: string where "ActionDismissAll = ''dismiss_all''"
definition ActionCopy :: string where "ActionCopy = ''copy''"
definition ActionCopyBody :: string where "ActionCopyBody = ''copy_body''"

text \<open>\<^verbatim>\<open>copyToClipboard\<close>: run \<^verbatim>\<open>wl-copy\<close> on the content; a failure of the command is logged.\<close>
definition copyToClipboard :: "bool \<Rightarrow> string \<Rightarrow> state \<Rightarrow> state" where
  "copyToClipboard ok content s =
     (let s1 = s\<lparr>trace := trace s @ [WlCopy content]\<rparr>
      in if ok then s1 else slog_Error ''copy to clipboard'' ''err'' s1)"

text \<open>
  \<^verbatim>\<open>Activate\<close>. Of its parameters only \<^verbatim>\<open>identifier\<close> and \<^verbatim>\<open>action\<close> are read.
  \<open>io\<close> is the outcome of the save, \<open>ok\<close> that of \<^verbatim>\<open>wl-copy\<close>, where they run.
\<close>
definition Activate :: "Config \<Rightarrow> save_outcome \<Rightarrow> bool \<Rightarrow> string \<Rightarrow> string \<Rightarrow> state \<Rightarrow> state" where
  "Activate config io ok identifier action0 s =
     (let action = (if action0 = [] then ActionDismiss else action0) in
      if action = ActionDismiss then
        (case ParseUint identifier of
           (_, Some err) \<Rightarrow> slog_Error ''parse id'' ''err'' s
         | (id', None) \<Rightarrow>
             (let s1 = s\<lparr>history := (history s)(word_of_nat id' := None)\<rparr>
              in if Persist config then saveToFile io s1 else s1))
      else if action = ActionDismissAll then
        (let s1 = s\<lparr>history := Map.empty\<rparr>
         in if Persist config then saveToFile io s1 else s1)
      else if action = ActionCopy \<or> action = ActionCopyBody then
        (case ParseUint identifier of
           (_, Some err) \<Rightarrow> slog_Error ''parse id'' ''err'' s
         | (id', None) \<Rightarrow>
             (case history s (word_of_nat id') of
                None \<Rightarrow> s
              | Some n \<Rightarrow>
                  (let content = (if action = ActionCopyBody then Body n
                                  else Summary n @ [CHR 0x0A] @ Body n)
                   in copyToClipboard ok content s)))
      else slog_Error ''activate'' (''unknown action: '' @ action) s)"

subsection \<open>The query projection\<close>

text \<open>
  The fields of \<^verbatim>\<open>pb.QueryResponse_Item\<close> that \<^verbatim>\<open>Query\<close> computes from the record and
  the query; the constant fields and the preview text (a rendering of the same record)
  are left out.
\<close>
record Item =
  Identifier :: string
  Text :: string
  Subtext :: string
  ItemIcon :: string
  ItemActions :: "string list"
  Provider :: string
  Score :: i32
  Positions :: "i32 list"
  Start :: i32

definition mkItem :: "Config \<Rightarrow> Notification \<Rightarrow> Item" where
  "mkItem config n =
     \<lparr>Identifier = FormatUint (unat (ID n)),
      Text = Summary n,
      Subtext = (if AppName n \<noteq> [] then ''['' @ AppName n @ ''] '' @ Body n else Body n),
      ItemIcon = (if AppIcon n \<noteq> [] then AppIcon n else Icon config),
      ItemActions = [ActionDismiss, ActionCopy, ActionCopyBody],
      Provider = ''notifications'',
      Score = 0, Positions = [], Start = 0\<rparr>"

text \<open>
  The first loop of \<^verbatim>\<open>Query\<close>, over the map in the order \<open>ks\<close>; \<open>fuzzy\<close> stands for
  \<^verbatim>\<open>common.FuzzyScore\<close>, which is not part of this package.
\<close>
fun collect ::
  "Config \<Rightarrow> (string \<Rightarrow> string \<Rightarrow> bool \<Rightarrow> i32 \<times> i32 list \<times> i32) \<Rightarrow> string \<Rightarrow> bool \<Rightarrow>
   (u32 \<rightharpoonup> Notification) \<Rightarrow> u32 list \<Rightarrow> Item list \<Rightarrow> Item list" where
  "collect config fuzzy query exact h [] entries = entries"
| "collect config fuzzy query exact h (k # ks) entries =
     (case h k of
        None \<Rightarrow> collect config fuzzy query exact h ks entries
      | Some n \<Rightarrow>
          (let e = mkItem config n in
           if query \<noteq> [] then
             (let (score, pos, start) =
                    fuzzy query (Summary n @ '' '' @ Body n @ '' '' @ AppName n) exact;
                  e1 = e\<lparr>Score := score, Positions := pos, Start := start\<rparr>
              in if sint (Score e1) > sint (MinScore config)
                 then collect config fuzzy query exact h ks (entries @ [e1])
                 else collect config fuzzy query exact h ks entries)
           else collect config fuzzy query exact h ks (entries @ [e])))"

text \<open>
  \<^verbatim>\<open>slices.SortStableFunc\<close> of the standard library, by its contract: a stable sort
  that moves an element before another only when \<open>cmp\<close> says it is smaller.
\<close>
fun insertStable :: "('a \<Rightarrow> 'a \<Rightarrow> int) \<Rightarrow> 'a \<Rightarrow> 'a list \<Rightarrow> 'a list" where
  "insertStable cmp x [] = [x]"
| "insertStable cmp x (y # ys) =
     (if cmp y x < 0 then y # insertStable cmp x ys else x # y # ys)"

fun SortStableFunc :: "('a \<Rightarrow> 'a \<Rightarrow> int) \<Rightarrow> 'a list \<Rightarrow> 'a list" where
  "SortStableFunc cmp [] = []"
| "SortStableFunc cmp (x # xs) = insertStable cmp x (SortStableFunc cmp xs)"

text \<open>\<^verbatim>\<open>Time.Compare\<close>.\<close>
definition Compare :: "time \<Rightarrow> time \<Rightarrow> int" where
  "Compare t u = (if t < u then - 1 else if t > u then 1 else 0)"

text \<open>The comparison function that \<^verbatim>\<open>Query\<close> passes to the sort.\<close>
definition byTime :: "(u32 \<rightharpoonup> Notification) \<Rightarrow> Item \<Rightarrow> Item \<Rightarrow> int" where
  "byTime h a b =
     (let idA = fst (ParseUint (Identifier a));
          idB = fst (ParseUint (Identifier b));
          nA = h (word_of_nat idA);
          nB = h (word_of_nat idB)
      in case (nA, nB) of
           (Some x, Some y) \<Rightarrow> Compare (Time y) (Time x)
         | _ \<Rightarrow> 0)"

text \<open>The last loop of \<^verbatim>\<open>Query\<close>: \<^verbatim>\<open>entries[k].Score = int32(10000 - k)\<close>.\<close>
fun setScores :: "nat \<Rightarrow> Item list \<Rightarrow> Item list" where
  "setScores k [] = []"
| "setScores k (e # es) = e\<lparr>Score := word_of_int (10000 - int k)\<rparr> # setScores (Suc k) es"

definition Query ::
  "Config \<Rightarrow> (string \<Rightarrow> string \<Rightarrow> bool \<Rightarrow> i32 \<times> i32 list \<times> i32) \<Rightarrow> u32 list \<Rightarrow>
   string \<Rightarrow> bool \<Rightarrow> state \<Rightarrow> Item list" where
  "Query config fuzzy ks query exact s =
     (let entries = collect config fuzzy query exact (history s) ks []
      in if query = [] then setScores 0 (SortStableFunc (byTime (history s)) entries)
         else entries)"

subsection \<open>Sequences of inserts\<close>

text \<open>
  The record literal of \<^verbatim>\<open>storeNotification\<close>, and one call of it with everything it
  reads: the eight arguments and the environment.
\<close>
record request =
  req_env :: env
  req_appName :: string
  req_replacesID :: u32
  req_appIcon :: string
  req_summary :: string
  req_body :: string
  req_actions :: "string list"
  req_hints :: "string \<rightharpoonup> hint_value"
  req_expireTimeout :: i32

definition literal :: "request \<Rightarrow> u32 \<Rightarrow> Notification" where
  "literal q k =
     \<lparr>ID = k, AppName = req_appName q, AppIcon = req_appIcon q, Summary = req_summary q,
      Body = req_body q, Actions = req_actions q, ExpireTimeout = req_expireTimeout q,
      Time = now_store (req_env q), Hints = req_hints q\<rparr>"

definition call :: "Config \<Rightarrow> request \<Rightarrow> state \<Rightarrow> u32 \<times> state" where
  "call config q s =
     storeNotification config (req_env q) (req_appName q) (req_replacesID q) (req_appIcon q)
       (req_summary q) (req_body q) (req_actions q) (req_hints q) (req_expireTimeout q) s"

definition call_inserted :: "request \<Rightarrow> state \<Rightarrow> (u32 \<rightharpoonup> Notification)" where
  "call_inserted q s =
     inserted (req_env q) (req_appName q) (req_replacesID q) (req_appIcon q)
       (req_summary q) (req_body q) (req_actions q) (req_hints q) (req_expireTimeout q) s"

fun run :: "Config \<Rightarrow> request list \<Rightarrow> state \<Rightarrow> state" where
  "run config [] s = s"
| "run config (q # qs) s = run config qs (snd (call config q s))"

text \<open>
  \<open>feasible q s\<close>: the environment of the call \<open>q\<close> in the state \<open>s\<close> is one a run of the
  program shows: the loop of \<^verbatim>\<open>trimHistory\<close> visits the keys of the map as it is after
  the insert, and the clock has advanced between the \<^verbatim>\<open>time.Now()\<close> of the record and
  the \<^verbatim>\<open>time.Now()\<close> of \<^verbatim>\<open>trimHistory\<close>.
\<close>
definition feasible :: "request \<Rightarrow> state \<Rightarrow> bool" where
  "feasible q s =
     (now_store (req_env q) < now_trim (req_env q) \<and>
      visits (order (req_env q)) (call_inserted q s))"

fun feasible_run :: "Config \<Rightarrow> request list \<Rightarrow> state \<Rightarrow> bool" where
  "feasible_run config [] s = True"
| "feasible_run config (q # qs) s =
     (feasible q s \<and> feasible_run config qs (snd (call config q s)))"

text \<open>The state invariant behind the cap: within the cap, no key 0, the counter not 0.\<close>
definition capped :: "Config \<Rightarrow> state \<Rightarrow> bool" where
  "capped config s = (len (history s) \<le> MaxItems config \<and> history s 0 = None \<and> nextID s \<noteq> 0)"

subsection \<open>Predicates of the properties\<close>

text \<open>Every record sits under the key that is its ID field.\<close>
definition keyed :: "(u32 \<rightharpoonup> Notification) \<Rightarrow> bool" where
  "keyed h = (\<forall>k n. h k = Some n \<longrightarrow> ID n = k)"

text \<open>
  What \<open>byTime\<close> computes on the items of two stored records (lemma \<open>byTime_mkItem\<close>):
  the comparison of their timestamps, the later one first.
\<close>
definition newer :: "Notification \<Rightarrow> Notification \<Rightarrow> int" where
  "newer a b = Compare (Time b) (Time a)"

subsection \<open>Sample inputs\<close>

text \<open>
  A call with the summary \<open>sm\<close> and the replaces-ID \<open>r\<close>, made at time \<open>t\<close>, whose trim
  (when it runs) reads the clock at \<open>t + 1\<close> and visits the keys in the order \<open>ks\<close>.
\<close>
definition sample :: "time \<Rightarrow> u32 list \<Rightarrow> u32 \<Rightarrow> string \<Rightarrow> request" where
  "sample t ks r sm =
     \<lparr>req_env = \<lparr>now_store = t, now_trim = t + 1, order = ks\<rparr>,
      req_appName = ''mail'', req_replacesID = r, req_appIcon = [], req_summary = sm,
      req_body = ''body'', req_actions = [], req_hints = Map.empty, req_expireTimeout = 0\<rparr>"

section \<open>Properties\<close>

subsection \<open>Decimal identifiers round-trip\<close>

declare FormatUint.simps [simp del]

lemma digitChar_digit:
  assumes "d < 10"
  shows "isDigit (digitChar d)" and "digitVal (digitChar d) = d"
proof -
  from assms have "d \<in> {0, 1, 2, 3, 4, 5, 6, 7, 8, 9}" by auto
  then show "isDigit (digitChar d)" and "digitVal (digitChar d) = d"
    by (auto simp: digitChar_def isDigit_def digitVal_def)
qed

lemma parseDigits_snoc:
  "parseDigits n (xs @ [c]) =
     (case parseDigits n xs of (m, None) \<Rightarrow> parseDigits m [c] | (m, Some e) \<Rightarrow> (m, Some e))"
  by (induction xs arbitrary: n) auto

lemma maxVal_less_cutoff: "m \<le> maxVal \<Longrightarrow> \<not> m \<ge> cutoff"
  by (simp add: maxVal_def cutoff_def)

lemma parseDigits_FormatUint:
  "a * 10 ^ length (FormatUint n) + n \<le> maxVal \<Longrightarrow>
   parseDigits a (FormatUint n) = (a * 10 ^ length (FormatUint n) + n, None)"
proof (induction n arbitrary: a rule: FormatUint.induct)
  case (1 n)
  show ?case
  proof (cases "n < 10")
    case True
    then have f: "FormatUint n = [digitChar n]" by (simp add: FormatUint.simps)
    from 1(2) f have b: "a * 10 + n \<le> maxVal" by simp
    then have "a \<le> maxVal" by simp
    then have c: "\<not> a \<ge> cutoff" by (rule maxVal_less_cutoff)
    show ?thesis using True b c by (simp add: f digitChar_digit)
  next
    case False
    let ?L = "length (FormatUint (n div 10))"
    have f: "FormatUint n = FormatUint (n div 10) @ [digitChar (n mod 10)]"
      using False by (subst FormatUint.simps) simp
    from 1(2) f have b: "a * 10 ^ ?L * 10 + n \<le> maxVal" by (simp add: mult.commute mult.left_commute)
    have n: "n = (n div 10) * 10 + n mod 10" by simp
    from b n have "(a * 10 ^ ?L + n div 10) * 10 + n mod 10 \<le> maxVal"
      by (simp add: algebra_simps)
    then have b1: "(a * 10 ^ ?L + n div 10) * 10 + n mod 10 \<le> maxVal"
      and b2: "a * 10 ^ ?L + n div 10 \<le> maxVal" by simp_all
    have ih: "parseDigits a (FormatUint (n div 10)) = (a * 10 ^ ?L + n div 10, None)"
      using "1.IH" [OF False b2] .
    have c: "\<not> (a * 10 ^ ?L + n div 10) \<ge> cutoff" using b2 by (rule maxVal_less_cutoff)
    have d: "n mod 10 < 10" by simp
    have "parseDigits a (FormatUint n) = ((a * 10 ^ ?L + n div 10) * 10 + n mod 10, None)"
      unfolding f parseDigits_snoc ih using b1 c
      by (simp add: digitChar_digit [OF d] del: mod_less_divisor)
    also have "(a * 10 ^ ?L + n div 10) * 10 + n mod 10 = a * 10 ^ length (FormatUint n) + n"
      unfolding f by (simp add: algebra_simps)
    finally show ?thesis .
  qed
qed

lemma FormatUint_nonempty: "FormatUint n \<noteq> []"
  by (subst FormatUint.simps) simp

lemma ParseUint_FormatUint: "n \<le> maxVal \<Longrightarrow> ParseUint (FormatUint n) = (n, None)"
  using parseDigits_FormatUint [of 0 n] by (simp add: ParseUint_def FormatUint_nonempty)

lemma unat_le_maxVal: "unat (k :: u32) \<le> maxVal"
proof -
  have "unat k < 2 ^ 32" using unsigned_less [of k] by simp
  then show ?thesis by (simp add: maxVal_def)
qed

lemma ParseUint_FormatUint_word:
  "word_of_nat (fst (ParseUint (FormatUint (unat (k :: u32))))) = k"
  by (simp add: ParseUint_FormatUint unat_le_maxVal)

subsection \<open>Activation\<close>

lemma action_names_distinct:
  "ActionDismiss \<noteq> ActionDismissAll" "ActionDismiss \<noteq> ActionCopy" "ActionDismiss \<noteq> ActionCopyBody"
  "ActionDismissAll \<noteq> ActionCopy" "ActionDismissAll \<noteq> ActionCopyBody" "ActionCopy \<noteq> ActionCopyBody"
  "ActionDismiss \<noteq> []" "ActionDismissAll \<noteq> []" "ActionCopy \<noteq> []" "ActionCopyBody \<noteq> []"
  by (simp_all add: ActionDismiss_def ActionDismissAll_def ActionCopy_def ActionCopyBody_def)

text \<open>
  Claim C8. An \<open>Activate\<close> call with an unknown action, or with the action dismiss (also
  as the default of the empty action), copy or copy\_body and an identifier that
  \<open>ParseUint\<close> rejects, returns the state it was given with one error line appended to
  the trace: the history, the counter and the cache file are untouched, and the trace
  gains no clipboard call and no file write.
\<close>
theorem C8_activate_malformed:
  "(action \<notin> {[], ActionDismiss, ActionDismissAll, ActionCopy, ActionCopyBody} \<longrightarrow>
      Activate config io ok identifier action s =
        s\<lparr>trace := trace s @ [LogError ''activate'' (''unknown action: '' @ action)]\<rparr>) \<and>
   (action \<in> {[], ActionDismiss, ActionCopy, ActionCopyBody} \<and> snd (ParseUint identifier) \<noteq> None \<longrightarrow>
      Activate config io ok identifier action s =
        s\<lparr>trace := trace s @ [LogError ''parse id'' ''err'']\<rparr>)"
  using action_names_distinct
  by (auto simp: Activate_def slog_Error_def split: prod.splits option.splits)

theorem C8_activate_malformed_witness:
  "(''snooze'' \<notin> {[], ActionDismiss, ActionDismissAll, ActionCopy, ActionCopyBody} \<and>
      Activate defaultConfig SaveOk True ''1'' ''snooze'' (init None) =
        (init None)\<lparr>trace := trace (init None) @ [LogError ''activate'' (''unknown action: '' @ ''snooze'')]\<rparr>) \<and>
   (ActionDismiss \<in> {[], ActionDismiss, ActionCopy, ActionCopyBody} \<and>
      snd (ParseUint ''4294967296'') \<noteq> None \<and>
      Activate defaultConfig SaveOk True ''4294967296'' ActionDismiss (init None) =
        (init None)\<lparr>trace := trace (init None) @ [LogError ''parse id'' ''err'']\<rparr>)"
proof -
  have a: "''snooze'' \<notin> {[], ActionDismiss, ActionDismissAll, ActionCopy, ActionCopyBody}"
    by (simp add: ActionDismiss_def ActionDismissAll_def ActionCopy_def ActionCopyBody_def)
  have b: "snd (ParseUint ''4294967296'') \<noteq> None"
    by (simp add: ParseUint_def isDigit_def digitVal_def cutoff_def maxVal_def)
  show ?thesis
    using C8_activate_malformed [of "''snooze''" defaultConfig SaveOk True "''1''" "init None"]
      C8_activate_malformed [of ActionDismiss defaultConfig SaveOk True "''4294967296''" "init None"] a b
    by simp
qed

text \<open>
  Claim C10. An \<open>Activate\<close> call with the action copy or copy\_body whose identifier
  parses as a 32-bit unsigned integer that is no key of the history returns the state
  unchanged: nothing is copied, nothing is logged, nothing is written.
\<close>
theorem C10_copy_unknown_id_noop:
  assumes "action = ActionCopy \<or> action = ActionCopyBody"
      and "ParseUint identifier = (v, None)"
      and "history s (word_of_nat v) = None"
  shows "Activate config io ok identifier action s = s"
  using assms action_names_distinct by (auto simp: Activate_def)

theorem C10_copy_unknown_id_noop_witness:
  "(ActionCopy = ActionCopy \<or> ActionCopy = ActionCopyBody) \<and> ParseUint ''7'' = (7, None) \<and>
   history (init None) (word_of_nat 7) = None \<and>
   Activate defaultConfig SaveOk True ''7'' ActionCopy (init None) = init None"
proof -
  have p: "ParseUint ''7'' = (7, None)"
    by (simp add: ParseUint_def isDigit_def digitVal_def cutoff_def maxVal_def)
  have h: "history (init None) (word_of_nat 7) = None" by (simp add: init_def)
  show ?thesis using C10_copy_unknown_id_noop [OF _ p h, of ActionCopy] p h by simp
qed

subsection \<open>The trim\<close>

lemma oldest_result:
  "oldest h ks (i0, t0) = (oid, ot) \<Longrightarrow>
     ot \<le> t0 \<and> (\<forall>k \<in> set ks. \<forall>n. h k = Some n \<longrightarrow> ot \<le> Time n) \<and>
     ((oid, ot) = (i0, t0) \<or> (oid \<in> set ks \<and> (\<exists>n. h oid = Some n \<and> Time n = ot) \<and> ot < t0))"
proof (induction ks arbitrary: i0 t0)
  case Nil
  then show ?case by simp
next
  case (Cons k ks)
  show ?case
  proof (cases "h k")
    case None
    with Cons.prems have "oldest h ks (i0, t0) = (oid, ot)" by simp
    from Cons.IH [OF this] None show ?thesis by auto
  next
    case (Some n)
    show ?thesis
    proof (cases "Time n < t0")
      case True
      with Some Cons.prems have "oldest h ks (k, Time n) = (oid, ot)" by simp
      from Cons.IH [OF this] Some True show ?thesis by auto
    next
      case False
      with Some Cons.prems have "oldest h ks (i0, t0) = (oid, ot)" by simp
      from Cons.IH [OF this] Some False show ?thesis by auto
    qed
  qed
qed

lemma trimHistory_other [simp]:
  "nextID (trimHistory now ks s) = nextID s" "trace (trimHistory now ks s) = trace s"
  "cacheFile (trimHistory now ks s) = cacheFile s" "conn (trimHistory now ks s) = conn s"
  by (simp_all add: trimHistory_def Let_def)

text \<open>The trim removes nothing, or one record that is before \<open>now\<close> and oldest among the visited.\<close>
lemma trimHistory_cases:
  "history (trimHistory now ks s) = history s \<or>
   (\<exists>k n. k \<noteq> 0 \<and> k \<in> set ks \<and> history s k = Some n \<and> Time n < now \<and>
      (\<forall>j \<in> set ks. \<forall>m. history s j = Some m \<longrightarrow> Time n \<le> Time m) \<and>
      history (trimHistory now ks s) = (history s)(k := None))"
proof -
  obtain oid ot where o: "oldest (history s) ks (0, now) = (oid, ot)"
    by (cases "oldest (history s) ks (0, now)")
  note r = oldest_result [OF o]
  show ?thesis
  proof (cases "oid > 0")
    case False
    then show ?thesis by (simp add: trimHistory_def o)
  next
    case True
    then have "oid \<noteq> 0" by simp
    with r have "oid \<in> set ks" and "\<exists>n. history s oid = Some n \<and> Time n = ot" and "ot < now"
      by auto
    then obtain n where n: "history s oid = Some n" "Time n = ot" by blast
    have "history (trimHistory now ks s) = (history s)(oid := None)"
      using True by (simp add: trimHistory_def o)
    with r n \<open>oid \<noteq> 0\<close> \<open>oid \<in> set ks\<close> \<open>ot < now\<close> show ?thesis by blast
  qed
qed

text \<open>With a record before \<open>now\<close> and no key 0, the trim removes an oldest record.\<close>
lemma trimHistory_evicts:
  assumes v: "visits ks (history s)" and z: "history s 0 = None"
      and c: "history s j = Some m" "Time m < now"
  shows "\<exists>k n. history s k = Some n \<and> (\<forall>j m. history s j = Some m \<longrightarrow> Time n \<le> Time m) \<and>
           history (trimHistory now ks s) = (history s)(k := None)"
proof -
  obtain oid ot where o: "oldest (history s) ks (0, now) = (oid, ot)"
    by (cases "oldest (history s) ks (0, now)")
  note r = oldest_result [OF o]
  from v c have jk: "j \<in> set ks" by (auto simp: visits_def)
  with r c have "ot \<le> Time m" by blast
  with c have "ot < now" by simp
  with r have in_ks: "oid \<in> set ks" and ex: "\<exists>n. history s oid = Some n \<and> Time n = ot" by auto
  then obtain n where n: "history s oid = Some n" "Time n = ot" by blast
  with z have "oid \<noteq> 0" by auto
  then have "oid > 0" by (simp add: word_gt_0)
  then have h: "history (trimHistory now ks s) = (history s)(oid := None)"
    by (simp add: trimHistory_def o)
  have "\<forall>j m. history s j = Some m \<longrightarrow> Time n \<le> Time m"
  proof (intro allI impI)
    fix j' m' assume a: "history s j' = Some m'"
    with v have "j' \<in> set ks" by (auto simp: visits_def)
    with r a have "ot \<le> Time m'" by blast
    with n show "Time n \<le> Time m'" by simp
  qed
  with n h show ?thesis by blast
qed

lemma len_delete: "h k = Some n \<Longrightarrow> len (h(k := None)) = len h - 1"
proof -
  assume a: "h k = Some n"
  then have "k \<in> dom h" by auto
  then have "card (dom h - {k}) = card (dom h) - 1" by simp
  moreover have "card (dom h) > 0" using \<open>k \<in> dom h\<close> by (auto simp: card_gt_0_iff)
  ultimately show ?thesis by (simp add: len_def of_nat_diff)
qed

lemma len_update: "len (h(k \<mapsto> n)) = (if h k = None then len h + 1 else len h)"
  by (auto simp: len_def insert_absorb domI card_insert_if domIff)

subsection \<open>One insert\<close>

lemma storeNotification_fst [simp]:
  "fst (storeNotification config e a r i sm b acts hs ex s) = chosenID r s"
  by (simp add: storeNotification_def chosenID_def Let_def split: prod.splits)

lemma storeNotification_nextID:
  "nextID (snd (storeNotification config e a r i sm b acts hs ex s)) =
     (if r > 0 then nextID s else nextID s + 1)"
  by (simp add: storeNotification_def Let_def split: prod.splits)

lemma storeNotification_history:
  "history (snd (storeNotification config e a r i sm b acts hs ex s)) =
     (let h = inserted e a r i sm b acts hs ex s
      in if len h > MaxItems config
         then history (trimHistory (now_trim e) (order e) (s\<lparr>history := h\<rparr>))
         else h)"
  by (simp add: storeNotification_def inserted_def chosenID_def Let_def trimHistory_def split: prod.splits)

lemma call_fst [simp]: "fst (call config q s) = chosenID (req_replacesID q) s"
  by (simp add: call_def)

lemma call_nextID:
  "nextID (snd (call config q s)) = (if req_replacesID q > 0 then nextID s else nextID s + 1)"
  by (simp add: call_def storeNotification_nextID)

lemma call_inserted_eq:
  "call_inserted q s =
     (history s)(chosenID (req_replacesID q) s \<mapsto> literal q (chosenID (req_replacesID q) s))"
  by (simp add: call_inserted_def inserted_def literal_def)

lemma call_history:
  "history (snd (call config q s)) =
     (if len (call_inserted q s) > MaxItems config
      then history (trimHistory (now_trim (req_env q)) (order (req_env q))
                      (s\<lparr>history := call_inserted q s\<rparr>))
      else call_inserted q s)"
  by (simp add: call_def call_inserted_def storeNotification_history Let_def)

lemma call_nextID_unat:
  "unat (nextID (snd (call config q s))) \<le> unat (nextID s) + 1"
  by (simp add: call_nextID unat_word_ariths)

lemma call_nextID_nonzero:
  assumes "nextID s \<noteq> 0" "unat (nextID s) + 1 < 2 ^ 32"
  shows "nextID (snd (call config q s)) \<noteq> 0"
proof (cases "req_replacesID q > 0")
  case True
  with assms show ?thesis by (simp add: call_nextID)
next
  case False
  have "unat (nextID s + 1) = unat (nextID s) + unat (1 :: u32)"
    using assms(2) by (subst unat_add_lem [symmetric]) simp
  then have "unat (nextID s + 1) \<noteq> 0" by simp
  then have "nextID s + 1 \<noteq> 0" by (metis unat_0)
  with False show ?thesis by (simp add: call_nextID)
qed

subsection \<open>The cap\<close>

lemma call_capped:
  assumes c: "capped config s" and f: "feasible q s" and b: "unat (nextID s) + 1 < 2 ^ 32"
  shows "capped config (snd (call config q s))"
proof -
  let ?h = "call_inserted q s"
  let ?k = "chosenID (req_replacesID q) s"
  from c have k0: "?k \<noteq> 0" by (auto simp: chosenID_def capped_def)
  have rec: "?h = (history s)(?k \<mapsto> literal q ?k)" by (rule call_inserted_eq)
  from c k0 have z: "?h 0 = None" by (simp add: rec capped_def)
  have l: "len ?h \<le> len (history s) + 1" by (simp add: rec len_update)
  note hist = call_history [of config q s]
  have n: "nextID (snd (call config q s)) \<noteq> 0"
    using c b by (intro call_nextID_nonzero) (simp_all add: capped_def)
  show ?thesis
  proof (cases "len ?h > MaxItems config")
    case False
    with hist z n show ?thesis by (simp add: capped_def)
  next
    case True
    let ?s1 = "s\<lparr>history := ?h\<rparr>"
    have v: "visits (order (req_env q)) (history ?s1)" using f by (simp add: feasible_def)
    have cand: "history ?s1 ?k = Some (literal q ?k)" "Time (literal q ?k) < now_trim (req_env q)"
      using f by (simp_all add: rec feasible_def literal_def)
    from trimHistory_evicts [OF v _ cand] z
    obtain k n where e: "?h k = Some n"
        "history (trimHistory (now_trim (req_env q)) (order (req_env q)) ?s1) = ?h(k := None)"
      by auto
    from e(1) have "len (?h(k := None)) = len ?h - 1" by (rule len_delete)
    with l c have "len (?h(k := None)) \<le> MaxItems config" by (simp add: capped_def)
    with hist True e z n show ?thesis by (simp add: capped_def)
  qed
qed

lemma run_capped:
  "capped config s \<Longrightarrow> feasible_run config qs s \<Longrightarrow> unat (nextID s) + length qs < 2 ^ 32 \<Longrightarrow>
   capped config (run config qs s)"
proof (induction qs arbitrary: s)
  case Nil
  then show ?case by simp
next
  case (Cons q qs)
  from Cons.prems have c1: "capped config (snd (call config q s))"
    by (intro call_capped) simp_all
  have "unat (nextID (snd (call config q s))) + length qs < 2 ^ 32"
    using call_nextID_unat [of config q s] Cons.prems(3) by simp
  with Cons.IH [OF c1] Cons.prems(2) show ?case by simp
qed

lemma feasible_run_take:
  "feasible_run config qs s \<Longrightarrow> feasible_run config (take n qs) s"
proof (induction qs arbitrary: s n)
  case Nil
  then show ?case by simp
next
  case (Cons q qs)
  then show ?case by (cases n) simp_all
qed

text \<open>
  Where no record comes under the key 0, the cap holds. Start from a store with an
  empty history and a counter that is not 0 (it is 1 initially) and run a sequence of
  inserts, with or without a replaces-ID, during which the 32-bit counter does not wrap.
  After each of them the history holds at most \<open>MaxItems\<close> records, provided the cap is
  not negative, the loop of the trim visits the keys of the map and the clock advances
  between the two reads of a call (\<open>feasible_run\<close>).
\<close>
lemma cap_after_each_insert:
  assumes "0 \<le> MaxItems config"
      and "history s = Map.empty" and "nextID s \<noteq> 0"
      and "unat (nextID s) + length qs < 2 ^ 32"
      and "feasible_run config qs s"
  shows "\<forall>n \<le> length qs. len (history (run config (take n qs) s)) \<le> MaxItems config"
proof (intro allI impI)
  fix n assume "n \<le> length qs"
  from assms(1-3) have c: "capped config s" by (simp add: capped_def len_def)
  have "capped config (run config (take n qs) s)"
    using c feasible_run_take [OF assms(5)] assms(4) by (intro run_capped) simp_all
  then show "len (history (run config (take n qs) s)) \<le> MaxItems config"
    by (simp add: capped_def)
qed

lemma cap_after_each_insert_example:
  "0 \<le> MaxItems (defaultConfig\<lparr>MaxItems := 2\<rparr>) \<and>
   history (init None) = Map.empty \<and> nextID (init None) \<noteq> 0 \<and>
   unat (nextID (init None)) +
     length [sample 10 [1] 0 ''a'', sample 20 [2, 1] 0 ''b'', sample 30 [3, 1, 2] 0 ''c''] < 2 ^ 32 \<and>
   feasible_run (defaultConfig\<lparr>MaxItems := 2\<rparr>)
     [sample 10 [1] 0 ''a'', sample 20 [2, 1] 0 ''b'', sample 30 [3, 1, 2] 0 ''c''] (init None) \<and>
   len (history (run (defaultConfig\<lparr>MaxItems := 2\<rparr>)
     [sample 10 [1] 0 ''a'', sample 20 [2, 1] 0 ''b'', sample 30 [3, 1, 2] 0 ''c''] (init None)))
     \<le> MaxItems (defaultConfig\<lparr>MaxItems := 2\<rparr>)"
proof -
  let ?c = "defaultConfig\<lparr>MaxItems := 2\<rparr>"
  let ?qs = "[sample 10 [1] 0 ''a'', sample 20 [2, 1] 0 ''b'', sample 30 [3, 1, 2] 0 ''c'']"
  have h1: "0 \<le> MaxItems ?c" by simp
  have h2: "history (init None) = Map.empty" by (simp add: init_def)
  have h3: "nextID (init None) \<noteq> 0" by (simp add: init_def)
  have h4: "unat (nextID (init None)) + length ?qs < 2 ^ 32" by (simp add: init_def)
  have h5: "feasible_run ?c ?qs (init None)"
    by (simp add: call_def storeNotification_def trimHistory_def sample_def init_def len_def
          Let_def feasible_def visits_def call_inserted_def inserted_def chosenID_def
          defaultConfig_def insert_commute)
  have n: "3 \<le> length ?qs" by simp
  from cap_after_each_insert [OF h1 h2 h3 h4 h5, rule_format, OF n]
  have h6: "len (history (run ?c ?qs (init None))) \<le> MaxItems ?c" by simp
  from h1 h2 h3 h4 h5 h6 show ?thesis by blast
qed


subsection \<open>Eviction\<close>

lemmas eval_store = call_def storeNotification_def trimHistory_def sample_def init_def len_def
  Let_def feasible_def visits_def call_inserted_def inserted_def chosenID_def defaultConfig_def
  insert_commute

lemma call_at_most_one:
  "history (snd (call config q s)) = call_inserted q s \<or>
   (\<exists>k n. call_inserted q s k = Some n \<and> history (snd (call config q s)) = (call_inserted q s)(k := None))"
proof (cases "len (call_inserted q s) > MaxItems config")
  case False
  then show ?thesis by (simp add: call_history)
next
  case True
  from trimHistory_cases [of "now_trim (req_env q)" "order (req_env q)" "s\<lparr>history := call_inserted q s\<rparr>"]
  show ?thesis using True by (auto simp: call_history)
qed

lemma call_evicts_oldest:
  assumes big: "len (call_inserted q s) > MaxItems config" and f: "feasible q s"
      and z: "call_inserted q s 0 = None"
  shows "\<exists>k n. call_inserted q s k = Some n \<and>
            (\<forall>j m. call_inserted q s j = Some m \<longrightarrow> Time n \<le> Time m) \<and>
            history (snd (call config q s)) = (call_inserted q s)(k := None) \<and>
            len (history (snd (call config q s))) = len (call_inserted q s) - 1"
proof -
  let ?h = "call_inserted q s"
  let ?k = "chosenID (req_replacesID q) s"
  let ?s1 = "s\<lparr>history := ?h\<rparr>"
  have v: "visits (order (req_env q)) (history ?s1)" using f by (simp add: feasible_def)
  have z1: "history ?s1 0 = None" using z by simp
  have cand: "history ?s1 ?k = Some (literal q ?k)" "Time (literal q ?k) < now_trim (req_env q)"
    using f by (simp_all add: call_inserted_eq feasible_def literal_def)
  from trimHistory_evicts [OF v z1 cand]
  obtain k n where e: "?h k = Some n" "\<forall>j m. ?h j = Some m \<longrightarrow> Time n \<le> Time m"
      "history (trimHistory (now_trim (req_env q)) (order (req_env q)) ?s1) = ?h(k := None)"
    by auto
  from e(3) big have h: "history (snd (call config q s)) = ?h(k := None)" by (simp add: call_history)
  from e(1) have "len (?h(k := None)) = len ?h - 1" by (rule len_delete)
  with e h show ?thesis by auto
qed

lemma three_inserts:
  assumes m: "MaxItems config = 2"
      and r: "req_replacesID q1 = 0" "req_replacesID q2 = 0" "req_replacesID q3 = 0"
      and t: "now_store (req_env q1) < now_store (req_env q2)"
             "now_store (req_env q2) < now_store (req_env q3)"
      and f: "feasible_run config [q1, q2, q3] (init f)"
  shows "history (run config [q1, q2, q3] (init f)) = [2 \<mapsto> literal q2 2, 3 \<mapsto> literal q3 3]"
proof -
  let ?s1 = "snd (call config q1 (init f))"
  let ?s2 = "snd (call config q2 ?s1)"
  have i1: "call_inserted q1 (init f) = [1 \<mapsto> literal q1 1]"
    using r by (simp add: call_inserted_eq chosenID_def init_def)
  have h1: "history ?s1 = [1 \<mapsto> literal q1 1]"
    using m by (simp add: call_history i1 len_def)
  have n1: "nextID ?s1 = 2" using r by (simp add: call_nextID init_def)
  have i2: "call_inserted q2 ?s1 = [1 \<mapsto> literal q1 1, 2 \<mapsto> literal q2 2]"
    using r by (simp add: call_inserted_eq chosenID_def h1 n1)
  have h2: "history ?s2 = [1 \<mapsto> literal q1 1, 2 \<mapsto> literal q2 2]"
    using m by (simp add: call_history i2 len_def)
  have n2: "nextID ?s2 = 3" using r by (simp add: call_nextID init_def)
  have i3: "call_inserted q3 ?s2 = [1 \<mapsto> literal q1 1, 2 \<mapsto> literal q2 2, 3 \<mapsto> literal q3 3]"
    using r by (simp add: call_inserted_eq chosenID_def h2 n2)
  have big: "len (call_inserted q3 ?s2) > MaxItems config" using m by (simp add: i3 len_def)
  have f3: "feasible q3 ?s2" using f by simp
  have z: "call_inserted q3 ?s2 0 = None" by (simp add: i3)
  from call_evicts_oldest [OF big f3 z]
  obtain k n where e: "call_inserted q3 ?s2 k = Some n"
      "\<forall>j m. call_inserted q3 ?s2 j = Some m \<longrightarrow> Time n \<le> Time m"
      "history (snd (call config q3 ?s2)) = (call_inserted q3 ?s2)(k := None)"
    by blast
  have "call_inserted q3 ?s2 1 = Some (literal q1 1)" by (simp add: i3)
  with e(2) have "Time n \<le> Time (literal q1 1)" by blast
  then have tn: "Time n \<le> now_store (req_env q1)" by (simp add: literal_def)
  have "k = 1"
  proof (rule ccontr)
    assume "k \<noteq> 1"
    with e(1) have "n = literal q2 2 \<or> n = literal q3 3" by (auto simp: i3 split: if_splits)
    then have "Time n = now_store (req_env q2) \<or> Time n = now_store (req_env q3)"
      by (auto simp: literal_def)
    with tn t show False by auto
  qed
  with e(3) have "history (snd (call config q3 ?s2)) = [2 \<mapsto> literal q2 2, 3 \<mapsto> literal q3 3]"
    by (auto simp: i3)
  then show ?thesis by simp
qed

text \<open>
  One insert and its trim, where no record sits under the key 0. If the map holds at
  most \<open>MaxItems\<close> records after the assignment, nothing is evicted. If it holds more,
  the loop of the trim visits its keys, the clock has advanced since the record was
  built and no record sits under key 0, then exactly one record is evicted, and no
  record of the map is older than the evicted one. In every case at most one record
  goes, however far above the cap the map is (as after loading a file with more than
  \<open>MaxItems\<close> records). Three inserts without replaces-ID into the initial store, with
  \<open>MaxItems = 2\<close> and increasing timestamps, leave exactly the records of the second and
  the third.
\<close>
lemma evict_one_oldest:
  "(len (call_inserted q s) \<le> MaxItems config \<longrightarrow>
      history (snd (call config q s)) = call_inserted q s) \<and>
   (len (call_inserted q s) > MaxItems config \<and> feasible q s \<and> call_inserted q s 0 = None \<longrightarrow>
      (\<exists>k n. call_inserted q s k = Some n \<and>
         (\<forall>j m. call_inserted q s j = Some m \<longrightarrow> Time n \<le> Time m) \<and>
         history (snd (call config q s)) = (call_inserted q s)(k := None) \<and>
         len (history (snd (call config q s))) = len (call_inserted q s) - 1)) \<and>
   (history (snd (call config q s)) = call_inserted q s \<or>
      (\<exists>k n. call_inserted q s k = Some n \<and>
         history (snd (call config q s)) = (call_inserted q s)(k := None))) \<and>
   len (call_inserted q s) - 1 \<le> len (history (snd (call config q s))) \<and>
   (MaxItems config = 2 \<and>
    req_replacesID q1 = 0 \<and> req_replacesID q2 = 0 \<and> req_replacesID q3 = 0 \<and>
    now_store (req_env q1) < now_store (req_env q2) \<and>
    now_store (req_env q2) < now_store (req_env q3) \<and>
    feasible_run config [q1, q2, q3] (init f) \<longrightarrow>
      history (run config [q1, q2, q3] (init f)) = [2 \<mapsto> literal q2 2, 3 \<mapsto> literal q3 3])"
proof (intro conjI impI)
  assume "len (call_inserted q s) \<le> MaxItems config"
  then show "history (snd (call config q s)) = call_inserted q s" by (simp add: call_history)
next
  assume "len (call_inserted q s) > MaxItems config \<and> feasible q s \<and> call_inserted q s 0 = None"
  then show "\<exists>k n. call_inserted q s k = Some n \<and>
         (\<forall>j m. call_inserted q s j = Some m \<longrightarrow> Time n \<le> Time m) \<and>
         history (snd (call config q s)) = (call_inserted q s)(k := None) \<and>
         len (history (snd (call config q s))) = len (call_inserted q s) - 1"
    using call_evicts_oldest by blast
next
  show "history (snd (call config q s)) = call_inserted q s \<or>
      (\<exists>k n. call_inserted q s k = Some n \<and>
         history (snd (call config q s)) = (call_inserted q s)(k := None))"
    by (rule call_at_most_one)
next
  from call_at_most_one [of config q s]
  show "len (call_inserted q s) - 1 \<le> len (history (snd (call config q s)))"
    by (auto simp: len_delete)
next
  assume "MaxItems config = 2 \<and>
    req_replacesID q1 = 0 \<and> req_replacesID q2 = 0 \<and> req_replacesID q3 = 0 \<and>
    now_store (req_env q1) < now_store (req_env q2) \<and>
    now_store (req_env q2) < now_store (req_env q3) \<and>
    feasible_run config [q1, q2, q3] (init f)"
  then show "history (run config [q1, q2, q3] (init f)) = [2 \<mapsto> literal q2 2, 3 \<mapsto> literal q3 3]"
    using three_inserts by blast
qed

lemma evict_one_oldest_example:
  "(len (call_inserted (sample 10 [1] 0 ''a'') (init None)) \<le> MaxItems (defaultConfig\<lparr>MaxItems := 2\<rparr>) \<and>
    history (snd (call (defaultConfig\<lparr>MaxItems := 2\<rparr>) (sample 10 [1] 0 ''a'') (init None))) =
      call_inserted (sample 10 [1] 0 ''a'') (init None)) \<and>
   (len (call_inserted (sample 30 [3, 1, 2] 0 ''c'')
          (run (defaultConfig\<lparr>MaxItems := 2\<rparr>) [sample 10 [1] 0 ''a'', sample 20 [2, 1] 0 ''b''] (init None)))
      > MaxItems (defaultConfig\<lparr>MaxItems := 2\<rparr>) \<and>
    feasible (sample 30 [3, 1, 2] 0 ''c'')
      (run (defaultConfig\<lparr>MaxItems := 2\<rparr>) [sample 10 [1] 0 ''a'', sample 20 [2, 1] 0 ''b''] (init None)) \<and>
    call_inserted (sample 30 [3, 1, 2] 0 ''c'')
      (run (defaultConfig\<lparr>MaxItems := 2\<rparr>) [sample 10 [1] 0 ''a'', sample 20 [2, 1] 0 ''b''] (init None)) 0 = None \<and>
    len (history (snd (call (defaultConfig\<lparr>MaxItems := 2\<rparr>) (sample 30 [3, 1, 2] 0 ''c'')
          (run (defaultConfig\<lparr>MaxItems := 2\<rparr>) [sample 10 [1] 0 ''a'', sample 20 [2, 1] 0 ''b''] (init None))))) = 2) \<and>
   (MaxItems (defaultConfig\<lparr>MaxItems := 2\<rparr>) = 2 \<and>
    req_replacesID (sample 10 [1] 0 ''a'') = 0 \<and> req_replacesID (sample 20 [2, 1] 0 ''b'') = 0 \<and>
    req_replacesID (sample 30 [3, 1, 2] 0 ''c'') = 0 \<and>
    now_store (req_env (sample 10 [1] 0 ''a'')) < now_store (req_env (sample 20 [2, 1] 0 ''b'')) \<and>
    now_store (req_env (sample 20 [2, 1] 0 ''b'')) < now_store (req_env (sample 30 [3, 1, 2] 0 ''c'')) \<and>
    feasible_run (defaultConfig\<lparr>MaxItems := 2\<rparr>)
      [sample 10 [1] 0 ''a'', sample 20 [2, 1] 0 ''b'', sample 30 [3, 1, 2] 0 ''c''] (init None) \<and>
    history (run (defaultConfig\<lparr>MaxItems := 2\<rparr>)
      [sample 10 [1] 0 ''a'', sample 20 [2, 1] 0 ''b'', sample 30 [3, 1, 2] 0 ''c''] (init None)) =
      [2 \<mapsto> literal (sample 20 [2, 1] 0 ''b'') 2, 3 \<mapsto> literal (sample 30 [3, 1, 2] 0 ''c'') 3])"
proof -
  let ?c = "defaultConfig\<lparr>MaxItems := 2\<rparr>"
  let ?a = "sample 10 [1] 0 ''a''" and ?b = "sample 20 [2, 1] 0 ''b''" and ?d = "sample 30 [3, 1, 2] 0 ''c''"
  let ?s2 = "run ?c [?a, ?b] (init None)"
  have a1: "len (call_inserted ?a (init None)) \<le> MaxItems ?c" by (simp add: eval_store)
  have b1: "len (call_inserted ?d ?s2) > MaxItems ?c" by (simp add: eval_store)
  have b2: "feasible ?d ?s2" by (simp add: eval_store)
  have b3: "call_inserted ?d ?s2 0 = None" by (simp add: eval_store)
  have d1: "MaxItems ?c = 2" by simp
  have d2: "req_replacesID ?a = 0" "req_replacesID ?b = 0" "req_replacesID ?d = 0"
    by (simp_all add: sample_def)
  have d3: "now_store (req_env ?a) < now_store (req_env ?b)" "now_store (req_env ?b) < now_store (req_env ?d)"
    by (simp_all add: sample_def)
  have d4: "feasible_run ?c [?a, ?b, ?d] (init None)" by (simp add: eval_store)
  note A = evict_one_oldest [where q = ?a and s = "init None" and config = ?c and ?q1.0 = ?a and ?q2.0 = ?b and ?q3.0 = ?d and f = None]
  note B = evict_one_oldest [where q = ?d and s = ?s2 and config = ?c and ?q1.0 = ?a and ?q2.0 = ?b and ?q3.0 = ?d and f = None]
  from A a1 have a2: "history (snd (call ?c ?a (init None))) = call_inserted ?a (init None)" by blast
  from B b1 b2 b3 have "\<exists>k n. len (history (snd (call ?c ?d ?s2))) = len (call_inserted ?d ?s2) - 1" by blast
  then have b4: "len (history (snd (call ?c ?d ?s2))) = 2" by (simp add: eval_store)
  from B d1 d2 d3 d4 have d5: "history (run ?c [?a, ?b, ?d] (init None)) = [2 \<mapsto> literal ?b 2, 3 \<mapsto> literal ?d 3]"
    by blast
  from a1 a2 b1 b2 b3 b4 d1 d2 d3 d4 d5 show ?thesis by blast
qed

text \<open>
  A store loaded with three records under \<open>MaxItems = 1\<close>: the next insert evicts the
  oldest record only, and three records remain.
\<close>
lemma bulk_load_one_eviction:
  "len (history (loadFromFile LoadOk [1, 2, 3]
      (init (Some [1 \<mapsto> literal (sample 10 [] 0 ''a'') 1, 2 \<mapsto> literal (sample 20 [] 0 ''b'') 2,
                   3 \<mapsto> literal (sample 30 [] 0 ''c'') 3])))) = 3 \<and>
   history (snd (call (defaultConfig\<lparr>MaxItems := 1\<rparr>) (sample 40 [4, 1, 2, 3] 0 ''d'')
     (loadFromFile LoadOk [1, 2, 3]
      (init (Some [1 \<mapsto> literal (sample 10 [] 0 ''a'') 1, 2 \<mapsto> literal (sample 20 [] 0 ''b'') 2,
                   3 \<mapsto> literal (sample 30 [] 0 ''c'') 3]))))) =
     [2 \<mapsto> literal (sample 20 [] 0 ''b'') 2, 3 \<mapsto> literal (sample 30 [] 0 ''c'') 3,
      4 \<mapsto> literal (sample 40 [4, 1, 2, 3] 0 ''d'') 4]"
  by (auto simp: eval_store loadFromFile_def literal_def)


subsection \<open>Inserts with a replaces-ID\<close>

lemma call_keeps_new:
  assumes v: "visits (order (req_env q)) (call_inserted q s)"
      and o: "history s k = Some n" "k \<noteq> chosenID (req_replacesID q) s" "Time n < now_store (req_env q)"
  shows "history (snd (call config q s)) (chosenID (req_replacesID q) s) =
           Some (literal q (chosenID (req_replacesID q) s))"
proof -
  let ?r = "chosenID (req_replacesID q) s"
  let ?h = "call_inserted q s"
  have hr: "?h ?r = Some (literal q ?r)" by (simp add: call_inserted_eq)
  have hk: "?h k = Some n" using o by (simp add: call_inserted_eq)
  show ?thesis
  proof (cases "len ?h > MaxItems config")
    case False
    then show ?thesis using hr by (simp add: call_history)
  next
    case True
    let ?s1 = "s\<lparr>history := ?h\<rparr>"
    let ?t = "trimHistory (now_trim (req_env q)) (order (req_env q)) ?s1"
    have hist: "history (snd (call config q s)) = history ?t" using True by (simp add: call_history)
    from trimHistory_cases [of "now_trim (req_env q)" "order (req_env q)" ?s1]
    show ?thesis
    proof
      assume "history ?t = history ?s1"
      with hist hr show ?thesis by simp
    next
      assume "\<exists>k' n'. k' \<noteq> 0 \<and> k' \<in> set (order (req_env q)) \<and> history ?s1 k' = Some n' \<and>
                Time n' < now_trim (req_env q) \<and>
                (\<forall>j \<in> set (order (req_env q)). \<forall>m. history ?s1 j = Some m \<longrightarrow> Time n' \<le> Time m) \<and>
                history ?t = (history ?s1)(k' := None)"
      then obtain k' n' where e: "?h k' = Some n'"
          "\<forall>j \<in> set (order (req_env q)). \<forall>m. ?h j = Some m \<longrightarrow> Time n' \<le> Time m"
          "history ?t = ?h(k' := None)"
        by auto
      from v hk have "k \<in> set (order (req_env q))" by (auto simp: visits_def)
      with e(2) hk have le: "Time n' \<le> Time n" by blast
      have "k' \<noteq> ?r"
      proof
        assume "k' = ?r"
        with e(1) hr have "n' = literal q ?r" by simp
        then have "Time n' = now_store (req_env q)" by (simp add: literal_def)
        with le o(3) show False by simp
      qed
      with e(3) hist hr show ?thesis by simp
    qed
  qed
qed

text \<open>
  Claim C5, amended. An insert with a replaces-ID \<open>r\<close> other than 0 returns \<open>r\<close> and leaves
  the counter as it was. It writes the new record under the key \<open>r\<close>, over the record
  with that ID if there is one (no fresh ID is taken). Where the store stays within
  \<open>MaxItems\<close> that is all: the count is unchanged when \<open>r\<close> was present, and one more
  when it was absent. Otherwise the trim of the same call evicts at most one record,
  so the count can drop by one on a replace; the record under \<open>r\<close> itself is kept
  whenever some other stored record is strictly older than it.
\<close>
theorem C5_replaces_id:
  assumes "req_replacesID q \<noteq> 0"
  shows "fst (call config q s) = req_replacesID q \<and>
         nextID (snd (call config q s)) = nextID s \<and>
         (history s (req_replacesID q) \<noteq> None \<and> len (history s) \<le> MaxItems config \<longrightarrow>
            history (snd (call config q s)) = (history s)(req_replacesID q \<mapsto> literal q (req_replacesID q)) \<and>
            len (history (snd (call config q s))) = len (history s)) \<and>
         (history s (req_replacesID q) = None \<and> len (history s) < MaxItems config \<longrightarrow>
            history (snd (call config q s)) = (history s)(req_replacesID q \<mapsto> literal q (req_replacesID q)) \<and>
            len (history (snd (call config q s))) = len (history s) + 1) \<and>
         (history (snd (call config q s)) = (history s)(req_replacesID q \<mapsto> literal q (req_replacesID q)) \<or>
          (\<exists>k. history (snd (call config q s)) =
                 ((history s)(req_replacesID q \<mapsto> literal q (req_replacesID q)))(k := None))) \<and>
         (visits (order (req_env q)) (call_inserted q s) \<and>
          (\<exists>k n. history s k = Some n \<and> k \<noteq> req_replacesID q \<and> Time n < now_store (req_env q)) \<longrightarrow>
            history (snd (call config q s)) (req_replacesID q) = Some (literal q (req_replacesID q)))"
proof -
  let ?r = "req_replacesID q"
  from assms have pos: "?r > 0" by (simp add: word_gt_0)
  then have c: "chosenID ?r s = ?r" by (simp add: chosenID_def)
  have ins: "call_inserted q s = (history s)(?r \<mapsto> literal q ?r)"
    using call_inserted_eq [of q s] by (simp add: c)
  have 1: "fst (call config q s) = ?r" by (simp add: c)
  have 2: "nextID (snd (call config q s)) = nextID s" using pos by (simp add: call_nextID)
  have 3: "history s ?r \<noteq> None \<and> len (history s) \<le> MaxItems config \<longrightarrow>
            history (snd (call config q s)) = (history s)(?r \<mapsto> literal q ?r) \<and>
            len (history (snd (call config q s))) = len (history s)"
    by (auto simp: call_history ins len_update)
  have 4: "history s ?r = None \<and> len (history s) < MaxItems config \<longrightarrow>
            history (snd (call config q s)) = (history s)(?r \<mapsto> literal q ?r) \<and>
            len (history (snd (call config q s))) = len (history s) + 1"
    by (auto simp: call_history ins len_update)
  have 5: "history (snd (call config q s)) = (history s)(?r \<mapsto> literal q ?r) \<or>
          (\<exists>k. history (snd (call config q s)) = ((history s)(?r \<mapsto> literal q ?r))(k := None))"
    using call_at_most_one [of config q s] unfolding ins by blast
  have 6: "visits (order (req_env q)) (call_inserted q s) \<and>
          (\<exists>k n. history s k = Some n \<and> k \<noteq> ?r \<and> Time n < now_store (req_env q)) \<longrightarrow>
            history (snd (call config q s)) ?r = Some (literal q ?r)"
    using call_keeps_new [of q s _ _ config] unfolding c by blast
  from 1 2 3 4 5 6 show ?thesis by blast
qed

theorem C5_replaces_id_witness:
  "req_replacesID (sample 20 [1] 1 ''a2'') \<noteq> 0 \<and>
   history (run defaultConfig [sample 10 [1] 0 ''a''] (init None)) (req_replacesID (sample 20 [1] 1 ''a2'')) \<noteq> None \<and>
   len (history (run defaultConfig [sample 10 [1] 0 ''a''] (init None))) \<le> MaxItems defaultConfig \<and>
   len (history (snd (call defaultConfig (sample 20 [1] 1 ''a2'')
          (run defaultConfig [sample 10 [1] 0 ''a''] (init None))))) =
     len (history (run defaultConfig [sample 10 [1] 0 ''a''] (init None))) \<and>
   req_replacesID (sample 20 [5, 1] 5 ''x'') \<noteq> 0 \<and>
   history (run defaultConfig [sample 10 [1] 0 ''a''] (init None)) (req_replacesID (sample 20 [5, 1] 5 ''x'')) = None \<and>
   len (history (run defaultConfig [sample 10 [1] 0 ''a''] (init None))) < MaxItems defaultConfig \<and>
   len (history (snd (call defaultConfig (sample 20 [5, 1] 5 ''x'')
          (run defaultConfig [sample 10 [1] 0 ''a''] (init None))))) =
     len (history (run defaultConfig [sample 10 [1] 0 ''a''] (init None))) + 1 \<and>
   visits (order (req_env (sample 20 [5, 1] 5 ''x'')))
     (call_inserted (sample 20 [5, 1] 5 ''x'') (run defaultConfig [sample 10 [1] 0 ''a''] (init None))) \<and>
   (\<exists>k n. history (run defaultConfig [sample 10 [1] 0 ''a''] (init None)) k = Some n \<and>
          k \<noteq> req_replacesID (sample 20 [5, 1] 5 ''x'') \<and>
          Time n < now_store (req_env (sample 20 [5, 1] 5 ''x''))) \<and>
   history (snd (call defaultConfig (sample 20 [5, 1] 5 ''x'')
          (run defaultConfig [sample 10 [1] 0 ''a''] (init None))))
     (req_replacesID (sample 20 [5, 1] 5 ''x'')) =
     Some (literal (sample 20 [5, 1] 5 ''x'') (req_replacesID (sample 20 [5, 1] 5 ''x'')))"
proof -
  let ?s = "run defaultConfig [sample 10 [1] 0 ''a''] (init None)"
  let ?p = "sample 20 [1] 1 ''a2''" and ?x = "sample 20 [5, 1] 5 ''x''"
  have p0: "req_replacesID ?p \<noteq> 0" by (simp add: sample_def)
  have p1: "history ?s (req_replacesID ?p) \<noteq> None" by (simp add: eval_store)
  have p2: "len (history ?s) \<le> MaxItems defaultConfig" by (simp add: eval_store)
  have x0: "req_replacesID ?x \<noteq> 0" by (simp add: sample_def)
  have x1: "history ?s (req_replacesID ?x) = None" by (simp add: eval_store)
  have x2: "len (history ?s) < MaxItems defaultConfig" by (simp add: eval_store)
  have x3: "visits (order (req_env ?x)) (call_inserted ?x ?s)" by (simp add: eval_store)
  have x4: "\<exists>k n. history ?s k = Some n \<and> k \<noteq> req_replacesID ?x \<and> Time n < now_store (req_env ?x)"
    by (rule exI [of _ 1]) (simp add: eval_store)
  note P = C5_replaces_id [OF p0, of defaultConfig ?s]
  note X = C5_replaces_id [OF x0, of defaultConfig ?s]
  from P p1 p2 have p3: "len (history (snd (call defaultConfig ?p ?s))) = len (history ?s)" by blast
  from X x1 x2 have x5: "len (history (snd (call defaultConfig ?x ?s))) = len (history ?s) + 1" by blast
  from X x3 x4 have x6: "history (snd (call defaultConfig ?x ?s)) (req_replacesID ?x) =
      Some (literal ?x (req_replacesID ?x))" by blast
  from p0 p1 p2 p3 x0 x1 x2 x5 x3 x4 x6 show ?thesis by blast
qed

text \<open>
  The claim as stated fails in two ways. A store loaded with two records under
  \<open>MaxItems = 1\<close>: replacing record 2 in place also evicts record 1, so the count goes
  from 2 to 1. A store with \<open>MaxItems = 0\<close>: the record created under the absent ID 5
  is evicted by the trim of the same call.
\<close>
theorem C5_counterexample:
  "req_replacesID (sample 30 [1, 2] 2 ''b2'') \<noteq> 0 \<and>
   history (loadFromFile LoadOk [1, 2]
     (init (Some [1 \<mapsto> literal (sample 10 [] 0 ''a'') 1, 2 \<mapsto> literal (sample 20 [] 0 ''b'') 2]))) 2 \<noteq> None \<and>
   len (history (loadFromFile LoadOk [1, 2]
     (init (Some [1 \<mapsto> literal (sample 10 [] 0 ''a'') 1, 2 \<mapsto> literal (sample 20 [] 0 ''b'') 2])))) = 2 \<and>
   len (history (snd (call (defaultConfig\<lparr>MaxItems := 1\<rparr>) (sample 30 [1, 2] 2 ''b2'')
     (loadFromFile LoadOk [1, 2]
       (init (Some [1 \<mapsto> literal (sample 10 [] 0 ''a'') 1, 2 \<mapsto> literal (sample 20 [] 0 ''b'') 2])))))) = 1 \<and>
   req_replacesID (sample 10 [5] 5 ''x'') \<noteq> 0 \<and>
   history (init None) 5 = None \<and>
   history (snd (call (defaultConfig\<lparr>MaxItems := 0\<rparr>) (sample 10 [5] 5 ''x'') (init None))) 5 = None"
  by (simp add: eval_store loadFromFile_def literal_def)


subsection \<open>The ID counter\<close>

text \<open>
  Claim C2, on the code. In the initial store a call with the replaces-ID 5 returns 5
  and leaves \<open>nextID\<close> at 1, so the next call without a replaces-ID returns 1, which is
  not greater than the 5 assigned before it. With the replaces-ID 1 instead, the next
  call without a replaces-ID returns 1 again and its record takes the place of the
  first one.
\<close>
theorem C2_replaces_id_not_tracked:
  "fst (call defaultConfig (sample 10 [5] 5 ''a'') (init None)) = 5 \<and>
   nextID (snd (call defaultConfig (sample 10 [5] 5 ''a'') (init None))) = 1 \<and>
   fst (call defaultConfig (sample 20 [1, 5] 0 ''b'')
          (snd (call defaultConfig (sample 10 [5] 5 ''a'') (init None)))) = 1 \<and>
   history (snd (call defaultConfig (sample 10 [1] 1 ''a'') (init None))) =
     [1 \<mapsto> literal (sample 10 [1] 1 ''a'') 1] \<and>
   history (snd (call defaultConfig (sample 20 [1] 0 ''b'')
          (snd (call defaultConfig (sample 10 [1] 1 ''a'') (init None))))) =
     [1 \<mapsto> literal (sample 20 [1] 0 ''b'') 1]"
  by (simp add: eval_store literal_def)

text \<open>
  The loop of \<open>loadFromFile\<close> does raise the counter above every key it visits, as
  long as none of them is the largest 32-bit value.
\<close>
lemma word_less_succ:
  fixes k :: u32
  assumes "k \<noteq> - 1"
  shows "k < k + 1"
proof -
  from assms have "1 + k \<noteq> 0" using max_word_wrap [of k] by (auto simp: add.commute)
  then have "unat (1 + k) = Suc (unat k)" by (rule unatSuc)
  then show ?thesis by (simp add: word_less_nat_alt add.commute)
qed

lemma bumpNextID_exceeds:
  "- 1 \<notin> set ks \<Longrightarrow> c \<le> bumpNextID ks c \<and> (\<forall>k \<in> set ks. k < bumpNextID ks c)"
proof (induction ks arbitrary: c)
  case Nil
  then show ?case by simp
next
  case (Cons k ks)
  let ?c = "if k \<ge> c then k + 1 else c"
  from Cons.prems have k: "k < k + 1" and ks: "- 1 \<notin> set ks" by (auto intro: word_less_succ)
  from Cons.IH [OF ks, of ?c] have ih: "?c \<le> bumpNextID ks ?c" "\<forall>j \<in> set ks. j < bumpNextID ks ?c"
    by simp_all
  have c1: "c \<le> ?c" using k by auto
  have c2: "k < ?c" using k by auto
  from c1 ih(1) have "c \<le> bumpNextID ks ?c" by (rule order_trans)
  moreover from c2 ih(1) have "k < bumpNextID ks ?c" by (rule less_le_trans)
  ultimately show ?case using ih(2) by simp
qed

text \<open>
  In the model, where the file holds the map that was written: saving and loading into
  the initial store gives the history back, and the counter then exceeds every key,
  unless the largest 32-bit value is one of them.
\<close>
lemma load_after_save:
  assumes "set ks = dom (history s)" and "- 1 \<notin> dom (history s)"
  shows "history (loadFromFile LoadOk ks (init (cacheFile (saveToFile SaveOk s)))) = history s"
    and "\<forall>k \<in> dom (history s). k < nextID (loadFromFile LoadOk ks (init (cacheFile (saveToFile SaveOk s))))"
proof -
  show "history (loadFromFile LoadOk ks (init (cacheFile (saveToFile SaveOk s)))) = history s"
    by (simp add: loadFromFile_def saveToFile_def init_def)
  have "nextID (loadFromFile LoadOk ks (init (cacheFile (saveToFile SaveOk s)))) = bumpNextID ks 1"
    by (simp add: loadFromFile_def saveToFile_def init_def)
  moreover have "\<forall>k \<in> set ks. k < bumpNextID ks 1"
    using bumpNextID_exceeds [of ks 1] assms by simp
  ultimately show "\<forall>k \<in> dom (history s). k < nextID (loadFromFile LoadOk ks (init (cacheFile (saveToFile SaveOk s))))"
    using assms(1) by simp
qed

text \<open>
  Claim C6, on the code. A call with the replaces-ID \<open>2^32 - 1\<close> stores a record under
  that key, and \<open>saveToFile\<close> writes it. \<open>loadFromFile\<close> into the initial store
  restores the record and computes \<open>nextID = 0\<close>: \<^verbatim>\<open>id + 1\<close> wraps around, and the
  counter does not exceed the loaded ID.
\<close>
theorem C6_load_wraps_counter:
  "cacheFile (saveToFile SaveOk
       (snd (call defaultConfig (sample 10 [4294967295] 4294967295 ''a'') (init None)))) =
     Some [4294967295 \<mapsto> literal (sample 10 [4294967295] 4294967295 ''a'') 4294967295] \<and>
   history (loadFromFile LoadOk [4294967295]
       (init (Some [4294967295 \<mapsto> literal (sample 10 [4294967295] 4294967295 ''a'') 4294967295]))) =
     [4294967295 \<mapsto> literal (sample 10 [4294967295] 4294967295 ''a'') 4294967295] \<and>
   nextID (loadFromFile LoadOk [4294967295]
       (init (Some [4294967295 \<mapsto> literal (sample 10 [4294967295] 4294967295 ''a'') 4294967295]))) = 0"
  by (simp add: eval_store literal_def saveToFile_def loadFromFile_def)

text \<open>The outcome also depends on the order in which the loop visits the keys.\<close>
lemma bumpNextID_order: "bumpNextID [4294967295, 5] 1 = 6 \<and> bumpNextID [5, 4294967295] 1 = 0"
  by simp

text \<open>
  Claim C9, on the code. In the store loaded above the counter is 0, so the next call
  without a replaces-ID returns 0 and stores a record with the ID 0 under the key 0.
\<close>
theorem C9_counter_zero_gives_id_zero:
  "nextID (loadFromFile LoadOk [4294967295]
       (init (Some [4294967295 \<mapsto> literal (sample 10 [4294967295] 4294967295 ''a'') 4294967295]))) = 0 \<and>
   fst (call defaultConfig (sample 20 [0, 4294967295] 0 ''b'')
     (loadFromFile LoadOk [4294967295]
       (init (Some [4294967295 \<mapsto> literal (sample 10 [4294967295] 4294967295 ''a'') 4294967295])))) = 0 \<and>
   history (snd (call defaultConfig (sample 20 [0, 4294967295] 0 ''b'')
     (loadFromFile LoadOk [4294967295]
       (init (Some [4294967295 \<mapsto> literal (sample 10 [4294967295] 4294967295 ''a'') 4294967295]))))) 0 =
     Some (literal (sample 20 [0, 4294967295] 0 ''b'') 0) \<and>
   ID (literal (sample 20 [0, 4294967295] 0 ''b'') 0) = 0"
  by (simp add: eval_store literal_def saveToFile_def loadFromFile_def)

subsection \<open>The record under the key 0 and the cap\<close>

text \<open>
  Claim C3, on the code. In the store loaded above (counter 0), with \<open>MaxItems = 1\<close>,
  the first insert without a replaces-ID takes the ID 0 and evicts the loaded record.
  The second takes the ID 1; after the assignment the map holds two records, more than
  the cap, and the older of the two sits under the key 0. The loop of the trim visits
  both keys and the clock has advanced, but \<^verbatim>\<open>oldestID > 0\<close> fails for the key 0: nothing
  is evicted, and the history after the call is the map with both records.
\<close>
theorem C3_oldest_under_key_zero_kept:
  "history (snd (call (defaultConfig\<lparr>MaxItems := 1\<rparr>) (sample 20 [0, 4294967295] 0 ''b'')
      (loadFromFile LoadOk [4294967295]
        (init (Some [4294967295 \<mapsto> literal (sample 10 [4294967295] 4294967295 ''a'') 4294967295]))))) =
     [0 \<mapsto> literal (sample 20 [0, 4294967295] 0 ''b'') 0] \<and>
   call_inserted (sample 30 [0, 1] 0 ''c'')
     (snd (call (defaultConfig\<lparr>MaxItems := 1\<rparr>) (sample 20 [0, 4294967295] 0 ''b'')
      (loadFromFile LoadOk [4294967295]
        (init (Some [4294967295 \<mapsto> literal (sample 10 [4294967295] 4294967295 ''a'') 4294967295]))))) =
     [0 \<mapsto> literal (sample 20 [0, 4294967295] 0 ''b'') 0, 1 \<mapsto> literal (sample 30 [0, 1] 0 ''c'') 1] \<and>
   len (call_inserted (sample 30 [0, 1] 0 ''c'')
     (snd (call (defaultConfig\<lparr>MaxItems := 1\<rparr>) (sample 20 [0, 4294967295] 0 ''b'')
      (loadFromFile LoadOk [4294967295]
        (init (Some [4294967295 \<mapsto> literal (sample 10 [4294967295] 4294967295 ''a'') 4294967295])))))) = 2 \<and>
   MaxItems (defaultConfig\<lparr>MaxItems := 1\<rparr>) = 1 \<and>
   feasible (sample 30 [0, 1] 0 ''c'')
     (snd (call (defaultConfig\<lparr>MaxItems := 1\<rparr>) (sample 20 [0, 4294967295] 0 ''b'')
      (loadFromFile LoadOk [4294967295]
        (init (Some [4294967295 \<mapsto> literal (sample 10 [4294967295] 4294967295 ''a'') 4294967295]))))) \<and>
   Time (literal (sample 20 [0, 4294967295] 0 ''b'') 0) < Time (literal (sample 30 [0, 1] 0 ''c'') 1) \<and>
   history (snd (call (defaultConfig\<lparr>MaxItems := 1\<rparr>) (sample 30 [0, 1] 0 ''c'')
     (snd (call (defaultConfig\<lparr>MaxItems := 1\<rparr>) (sample 20 [0, 4294967295] 0 ''b'')
      (loadFromFile LoadOk [4294967295]
        (init (Some [4294967295 \<mapsto> literal (sample 10 [4294967295] 4294967295 ''a'') 4294967295]))))))) =
     [0 \<mapsto> literal (sample 20 [0, 4294967295] 0 ''b'') 0, 1 \<mapsto> literal (sample 30 [0, 1] 0 ''c'') 1]"
  by (auto simp: eval_store loadFromFile_def literal_def)

text \<open>
  Claim C1, on the code. Load the same file and dismiss all: the history is empty and
  the counter is 0. Two inserts without a replaces-ID, with \<open>MaxItems = 1\<close>, the loop of
  each trim visiting the keys of the map and the clock advancing: the first record
  comes under the key 0, the trim of the second insert does not evict it, and the
  history holds two records after the second insert.
\<close>
theorem C1_cap_broken_under_key_zero:
  "history (Activate (defaultConfig\<lparr>MaxItems := 1\<rparr>) SaveOk True [] ActionDismissAll
      (loadFromFile LoadOk [4294967295]
        (init (Some [4294967295 \<mapsto> literal (sample 10 [4294967295] 4294967295 ''a'') 4294967295])))) =
     Map.empty \<and>
   nextID (Activate (defaultConfig\<lparr>MaxItems := 1\<rparr>) SaveOk True [] ActionDismissAll
      (loadFromFile LoadOk [4294967295]
        (init (Some [4294967295 \<mapsto> literal (sample 10 [4294967295] 4294967295 ''a'') 4294967295])))) = 0 \<and>
   MaxItems (defaultConfig\<lparr>MaxItems := 1\<rparr>) = 1 \<and>
   feasible_run (defaultConfig\<lparr>MaxItems := 1\<rparr>) [sample 20 [0] 0 ''b'', sample 30 [0, 1] 0 ''c'']
     (Activate (defaultConfig\<lparr>MaxItems := 1\<rparr>) SaveOk True [] ActionDismissAll
      (loadFromFile LoadOk [4294967295]
        (init (Some [4294967295 \<mapsto> literal (sample 10 [4294967295] 4294967295 ''a'') 4294967295])))) \<and>
   history (run (defaultConfig\<lparr>MaxItems := 1\<rparr>) [sample 20 [0] 0 ''b'', sample 30 [0, 1] 0 ''c'']
     (Activate (defaultConfig\<lparr>MaxItems := 1\<rparr>) SaveOk True [] ActionDismissAll
      (loadFromFile LoadOk [4294967295]
        (init (Some [4294967295 \<mapsto> literal (sample 10 [4294967295] 4294967295 ''a'') 4294967295]))))) =
     [0 \<mapsto> literal (sample 20 [0] 0 ''b'') 0, 1 \<mapsto> literal (sample 30 [0, 1] 0 ''c'') 1] \<and>
   len (history (run (defaultConfig\<lparr>MaxItems := 1\<rparr>) [sample 20 [0] 0 ''b'', sample 30 [0, 1] 0 ''c'']
     (Activate (defaultConfig\<lparr>MaxItems := 1\<rparr>) SaveOk True [] ActionDismissAll
      (loadFromFile LoadOk [4294967295]
        (init (Some [4294967295 \<mapsto> literal (sample 10 [4294967295] 4294967295 ''a'') 4294967295])))))) = 2"
  by (auto simp: eval_store loadFromFile_def saveToFile_def Activate_def ActionDismiss_def
      ActionDismissAll_def literal_def)


subsection \<open>Passive mode\<close>

text \<open>
  Claim C4, amended. A signal whose name is not the \<open>Notify\<close> member of the interface,
  or whose body has fewer than 8 values, is ignored: the state is unchanged. A signal
  named \<open>Notify\<close> whose first 8 values have the expected types is stored exactly as the
  direct \<open>Notify\<close> call with these arguments stores it. A signal named \<open>Notify\<close> with at
  least 8 values of any types is stored too: each value of an unexpected type is
  replaced by the zero value of the expected type (empty string, 0, no actions, no
  hints), and the call leaves its mark on the trace.
\<close>
theorem C4_passive_signals:
  "(Name sig \<noteq> dbusInterface @ ''.Notify'' \<or> length (SigBody sig) < 8 \<longrightarrow>
      listenForSignals_step config e sig s = Inr s) \<and>
   (Name sig = dbusInterface @ ''.Notify'' \<and>
    SigBody sig = [DString appName, DUint32 replacesID, DString appIcon, DString summary,
                   DString body, DStrings actions, DVariantMap hints, DInt32 expireTimeout] @ rest \<longrightarrow>
      listenForSignals_step config e sig s =
        Inr (snd (Notify config e appName replacesID appIcon summary body actions hints expireTimeout s))) \<and>
   (Name sig = dbusInterface @ ''.Notify'' \<and> length (SigBody sig) \<ge> 8 \<longrightarrow>
      listenForSignals_step config e sig s =
        Inr (snd (Notify config e (asString (SigBody sig ! 0)) (asUint32 (SigBody sig ! 1))
                    (asString (SigBody sig ! 2)) (asString (SigBody sig ! 3))
                    (asString (SigBody sig ! 4)) (asStrings (SigBody sig ! 5))
                    (asVariantMap (SigBody sig ! 6)) (asInt32 (SigBody sig ! 7)) s)) \<and>
      trace (snd (Notify config e (asString (SigBody sig ! 0)) (asUint32 (SigBody sig ! 1))
                    (asString (SigBody sig ! 2)) (asString (SigBody sig ! 3))
                    (asString (SigBody sig ! 4)) (asStrings (SigBody sig ! 5))
                    (asVariantMap (SigBody sig ! 6)) (asInt32 (SigBody sig ! 7)) s)) \<noteq> trace s)"
proof (intro conjI impI)
  assume "Name sig \<noteq> dbusInterface @ ''.Notify'' \<or> length (SigBody sig) < 8"
  then show "listenForSignals_step config e sig s = Inr s"
    by (auto simp: listenForSignals_step_def)
next
  assume a: "Name sig = dbusInterface @ ''.Notify'' \<and>
    SigBody sig = [DString appName, DUint32 replacesID, DString appIcon, DString summary,
                   DString body, DStrings actions, DVariantMap hints, DInt32 expireTimeout] @ rest"
  then show "listenForSignals_step config e sig s =
        Inr (snd (Notify config e appName replacesID appIcon summary body actions hints expireTimeout s))"
    by (simp add: listenForSignals_step_def handleNotifySignal_def Notify_def)
next
  assume a: "Name sig = dbusInterface @ ''.Notify'' \<and> length (SigBody sig) \<ge> 8"
  then show "listenForSignals_step config e sig s =
        Inr (snd (Notify config e (asString (SigBody sig ! 0)) (asUint32 (SigBody sig ! 1))
                    (asString (SigBody sig ! 2)) (asString (SigBody sig ! 3))
                    (asString (SigBody sig ! 4)) (asStrings (SigBody sig ! 5))
                    (asVariantMap (SigBody sig ! 6)) (asInt32 (SigBody sig ! 7)) s))"
    by (simp add: listenForSignals_step_def handleNotifySignal_def Notify_def Let_def)
next
  show "trace (snd (Notify config e (asString (SigBody sig ! 0)) (asUint32 (SigBody sig ! 1))
                    (asString (SigBody sig ! 2)) (asString (SigBody sig ! 3))
                    (asString (SigBody sig ! 4)) (asStrings (SigBody sig ! 5))
                    (asVariantMap (SigBody sig ! 6)) (asInt32 (SigBody sig ! 7)) s)) \<noteq> trace s"
    by (simp add: Notify_def storeNotification_def Let_def split: prod.splits)
qed

theorem C4_passive_signals_witness:
  "length (SigBody \<lparr>Name = ''org.freedesktop.Notifications.Notify'', SigBody = [DString ''mail'']\<rparr>) < 8 \<and>
   listenForSignals_step defaultConfig \<lparr>now_store = 10, now_trim = 11, order = [1]\<rparr>
     \<lparr>Name = ''org.freedesktop.Notifications.Notify'', SigBody = [DString ''mail'']\<rparr> (init None) =
     Inr (init None) \<and>
   Name \<lparr>Name = ''org.freedesktop.Notifications.Notify'',
          SigBody = [DString ''mail'', DUint32 0, DString [], DString ''hello'', DString ''text'',
                     DStrings [], DVariantMap Map.empty, DInt32 5000]\<rparr> = dbusInterface @ ''.Notify'' \<and>
   SigBody \<lparr>Name = ''org.freedesktop.Notifications.Notify'',
          SigBody = [DString ''mail'', DUint32 0, DString [], DString ''hello'', DString ''text'',
                     DStrings [], DVariantMap Map.empty, DInt32 5000]\<rparr> =
     [DString ''mail'', DUint32 0, DString [], DString ''hello'', DString ''text'',
      DStrings [], DVariantMap Map.empty, DInt32 5000] @ [] \<and>
   length (SigBody \<lparr>Name = ''org.freedesktop.Notifications.Notify'',
          SigBody = [DString ''mail'', DUint32 0, DString [], DString ''hello'', DString ''text'',
                     DStrings [], DVariantMap Map.empty, DInt32 5000]\<rparr>) \<ge> 8 \<and>
   listenForSignals_step defaultConfig \<lparr>now_store = 10, now_trim = 11, order = [1]\<rparr>
     \<lparr>Name = ''org.freedesktop.Notifications.Notify'',
      SigBody = [DString ''mail'', DUint32 0, DString [], DString ''hello'', DString ''text'',
                 DStrings [], DVariantMap Map.empty, DInt32 5000]\<rparr> (init None) =
     Inr (snd (Notify defaultConfig \<lparr>now_store = 10, now_trim = 11, order = [1]\<rparr>
                 ''mail'' 0 [] ''hello'' ''text'' [] Map.empty 5000 (init None)))"
proof -
  let ?e = "\<lparr>now_store = 10, now_trim = 11, order = [1]\<rparr>"
  let ?short = "\<lparr>Name = ''org.freedesktop.Notifications.Notify'', SigBody = [DString ''mail'']\<rparr>"
  let ?body = "[DString ''mail'', DUint32 0, DString [], DString ''hello'', DString ''text'',
                     DStrings [], DVariantMap Map.empty, DInt32 5000]"
  let ?good = "\<lparr>Name = ''org.freedesktop.Notifications.Notify'', SigBody = ?body\<rparr>"
  have a: "length (SigBody ?short) < 8" by simp
  have b: "Name ?good = dbusInterface @ ''.Notify''" by (simp add: dbusInterface_def)
  have c: "SigBody ?good = ?body @ []" by simp
  have d: "length (SigBody ?good) \<ge> 8" by simp
  note S = C4_passive_signals [where sig = ?short and config = defaultConfig and e = ?e and s = "init None"]
  note G = C4_passive_signals [where sig = ?good and config = defaultConfig and e = ?e and s = "init None"
      and appName = "''mail''" and replacesID = 0 and appIcon = "[]" and summary = "''hello''"
      and body = "''text''" and actions = "[]" and hints = Map.empty and expireTimeout = 5000 and rest = "[]"]
  from S a have s1: "listenForSignals_step defaultConfig ?e ?short (init None) = Inr (init None)" by blast
  from G b c have g1: "listenForSignals_step defaultConfig ?e ?good (init None) =
     Inr (snd (Notify defaultConfig ?e ''mail'' 0 [] ''hello'' ''text'' [] Map.empty 5000 (init None)))"
    by blast
  from a s1 b c d g1 show ?thesis by blast
qed

text \<open>
  The claim as stated fails on a signal with 8 values of which the replaces-ID, the
  icon and the timeout have the wrong type: it is not ignored, the store gains a record.
\<close>
theorem C4_counterexample:
  "Name \<lparr>Name = ''org.freedesktop.Notifications.Notify'',
          SigBody = [DString ''mail'', DInt32 7, DBool True, DString ''hello'', DString ''text'',
                     DStrings [], DVariantMap Map.empty, DUint32 5000]\<rparr> = dbusInterface @ ''.Notify'' \<and>
   history (init None) = Map.empty \<and>
   listenForSignals_step defaultConfig \<lparr>now_store = 10, now_trim = 11, order = [1]\<rparr>
     \<lparr>Name = ''org.freedesktop.Notifications.Notify'',
      SigBody = [DString ''mail'', DInt32 7, DBool True, DString ''hello'', DString ''text'',
                 DStrings [], DVariantMap Map.empty, DUint32 5000]\<rparr> (init None) =
     Inr \<lparr>history = [1 \<mapsto> \<lparr>ID = 1, AppName = ''mail'', AppIcon = [], Summary = ''hello'',
                              Body = ''text'', Actions = [], ExpireTimeout = 0, Time = 10,
                              Hints = Map.empty\<rparr>],
          nextID = 2, cacheFile = None, conn = False,
          trace = [GoSaveToFile, ProviderUpdated ''notifications:new'']\<rparr>"
  by (simp add: listenForSignals_step_def handleNotifySignal_def dbusInterface_def
        storeNotification_def init_def defaultConfig_def len_def Let_def)


subsection \<open>Records sit under their IDs\<close>

text \<open>
  Every operation on the history keeps each record under the key that is its ID field:
  the insert (with its trim), \<open>CloseNotification\<close>, \<open>Activate\<close>, and \<open>loadFromFile\<close> of a
  file that \<open>saveToFile\<close> wrote from such a history (also where the decoder fails after
  storing some of its entries).
\<close>
lemma keyed_empty [simp]: "keyed Map.empty"
  by (simp add: keyed_def)

lemma keyed_update: "keyed h \<Longrightarrow> ID n = k \<Longrightarrow> keyed (h(k \<mapsto> n))"
  by (simp add: keyed_def)

lemma keyed_delete: "keyed h \<Longrightarrow> keyed (h(k := None))"
  by (simp add: keyed_def)

lemma keyed_trimHistory: "keyed (history s) \<Longrightarrow> keyed (history (trimHistory now ks s))"
  by (simp add: trimHistory_def Let_def keyed_delete)

lemma keyed_call: "keyed (history s) \<Longrightarrow> keyed (history (snd (call config q s)))"
proof -
  assume k: "keyed (history s)"
  have "keyed (call_inserted q s)"
    unfolding call_inserted_eq using k by (rule keyed_update) (simp add: literal_def)
  then have "keyed (history (trimHistory (now_trim (req_env q)) (order (req_env q))
                      (s\<lparr>history := call_inserted q s\<rparr>)))"
    by (intro keyed_trimHistory) simp
  with \<open>keyed (call_inserted q s)\<close> show ?thesis by (simp add: call_history)
qed

lemma keyed_run: "keyed (history s) \<Longrightarrow> keyed (history (run config qs s))"
  by (induction qs arbitrary: s) (auto simp: keyed_call)

lemma saveToFile_history [simp]: "history (saveToFile io s) = history s"
  by (cases io) (simp_all add: saveToFile_def slog_Error_def)

lemma keyed_CloseNotification:
  "keyed (history s) \<Longrightarrow> keyed (history (CloseNotification config io k s))"
  by (simp add: CloseNotification_def Let_def keyed_delete)

lemma keyed_Activate:
  "keyed (history s) \<Longrightarrow> keyed (history (Activate config io ok identifier action s))"
  by (auto simp: Activate_def Let_def slog_Error_def copyToClipboard_def keyed_delete
      split: prod.splits option.splits)

lemma keyed_loadFromFile:
  assumes "keyed (history s)" and "\<forall>m. cacheFile s = Some m \<longrightarrow> keyed m"
      and "\<forall>p. io = DecodeFailed p \<longrightarrow> keyed p"
  shows "keyed (history (loadFromFile io ks s))"
  using assms
  by (cases io) (auto simp: loadFromFile_def slog_Error_def Let_def keyed_def map_add_Some_iff
      split: option.splits)

subsection \<open>Query with the empty string\<close>

lemma collect_all:
  "collect config fuzzy [] exact h ks acc = acc @ map (mkItem config) (List.map_filter h ks)"
  by (induction ks arbitrary: acc) (auto simp: List.map_filter_simps split: option.splits)

lemma map_filter_visits:
  "set ks \<subseteq> dom h \<Longrightarrow> List.map_filter h ks = map (\<lambda>k. the (h k)) ks"
  by (induction ks) (auto simp: List.map_filter_simps)

lemma byTime_mkItem:
  assumes "keyed h" "a \<in> ran h" "b \<in> ran h"
  shows "byTime h (mkItem config a) (mkItem config b) = Compare (Time b) (Time a)"
proof -
  from assms have "h (ID a) = Some a" "h (ID b) = Some b" by (auto simp: keyed_def ran_def)
  then show ?thesis
    by (simp add: byTime_def mkItem_def ParseUint_FormatUint_word)
qed

lemma set_insertStable [simp]: "set (insertStable cmp x ys) = insert x (set ys)"
  by (induction ys) auto

lemma set_SortStableFunc [simp]: "set (SortStableFunc cmp xs) = set xs"
  by (induction xs) auto

lemma length_insertStable [simp]: "length (insertStable cmp x ys) = Suc (length ys)"
  by (induction ys) auto

lemma length_SortStableFunc [simp]: "length (SortStableFunc cmp xs) = length xs"
  by (induction xs) auto

lemma distinct_map_insertStable:
  "distinct (map f (insertStable cmp x ys)) = (f x \<notin> f ` set ys \<and> distinct (map f ys))"
  by (induction ys) auto

lemma distinct_map_SortStableFunc:
  "distinct (map f (SortStableFunc cmp xs)) = distinct (map f xs)"
  by (induction xs) (auto simp: distinct_map_insertStable)

lemma insertStable_map:
  assumes "\<forall>y \<in> set ys. cmp (f y) (f x) = cmp' y x"
  shows "insertStable cmp (f x) (map f ys) = map f (insertStable cmp' x ys)"
  using assms by (induction ys) auto

lemma SortStableFunc_map:
  assumes "\<forall>x \<in> set xs. \<forall>y \<in> set xs. cmp (f x) (f y) = cmp' x y"
  shows "SortStableFunc cmp (map f xs) = map f (SortStableFunc cmp' xs)"
  using assms
proof (induction xs)
  case Nil
  then show ?case by simp
next
  case (Cons x xs)
  then have ih: "SortStableFunc cmp (map f xs) = map f (SortStableFunc cmp' xs)" by simp
  from Cons.prems have "\<forall>y \<in> set (SortStableFunc cmp' xs). cmp (f y) (f x) = cmp' y x" by simp
  then show ?case by (simp add: ih insertStable_map)
qed

lemma sorted_insertStable:
  "sorted_wrt (\<lambda>a b. Time a \<ge> Time b) ys \<Longrightarrow>
   sorted_wrt (\<lambda>a b. Time a \<ge> Time b) (insertStable newer x ys)"
  by (induction ys) (auto simp: newer_def Compare_def split: if_splits)

lemma sorted_SortStableFunc:
  "sorted_wrt (\<lambda>a b. Time a \<ge> Time b) (SortStableFunc newer xs)"
  by (induction xs) (auto simp: sorted_insertStable)

lemma length_setScores [simp]: "length (setScores k es) = length es"
  by (induction es arbitrary: k) auto

lemma setScores_nth:
  "i < length es \<Longrightarrow> setScores k es ! i = (es ! i)\<lparr>Score := word_of_int (10000 - int (k + i))\<rparr>"
proof (induction es arbitrary: k i)
  case Nil
  then show ?case by simp
next
  case (Cons e es)
  then show ?case by (cases i) auto
qed

lemma sint_score:
  assumes "i < 2 ^ 31"
  shows "sint (word_of_int (10000 - int i) :: i32) = 10000 - int i"
proof -
  have b: "- (2 ^ 31) \<le> 10000 - int i" "10000 - int i < 2 ^ 31" using assms by auto
  have "sint (word_of_int (10000 - int i) :: i32) = signed_take_bit 31 (10000 - int i)"
    unfolding sint_sbintrunc' by simp
  also have "\<dots> = 10000 - int i" using b by (rule signed_take_bit_int_eq_self)
  finally show ?thesis .
qed

lemma Query_all:
  assumes v: "visits ks (history s)" and k: "keyed (history s)"
  shows "Query config fuzzy ks [] exact s =
           setScores 0 (map (mkItem config) (SortStableFunc newer (map (\<lambda>k. the (history s k)) ks)))"
proof -
  let ?h = "history s"
  let ?ns = "map (\<lambda>k. the (?h k)) ks"
  from v have sub: "set ks \<subseteq> dom ?h" by (simp add: visits_def)
  have c: "collect config fuzzy [] exact ?h ks [] = map (mkItem config) ?ns"
    by (simp add: collect_all map_filter_visits [OF sub])
  have r: "set ?ns \<subseteq> ran ?h"
  proof
    fix n assume "n \<in> set ?ns"
    then obtain k where "k \<in> set ks" "n = the (?h k)" by auto
    with sub have "?h k = Some n" by auto
    then show "n \<in> ran ?h" by (rule ranI)
  qed
  have "\<forall>a \<in> set ?ns. \<forall>b \<in> set ?ns. byTime ?h (mkItem config a) (mkItem config b) = newer a b"
    using r byTime_mkItem [OF k] unfolding newer_def by blast
  then have "SortStableFunc (byTime ?h) (map (mkItem config) ?ns) =
      map (mkItem config) (SortStableFunc newer ?ns)"
    by (rule SortStableFunc_map)
  then show ?thesis by (simp add: Query_def c)
qed

text \<open>
  Claim C7. \<open>Query\<close> with the empty query string returns one item per stored record:
  there is a list \<open>ns\<close> of the stored records, each once, ordered newest first by
  timestamp, such that the result is the list of their items in that order, and the
  item of rank \<open>i\<close> (from 0) has the score \<open>10000 - i\<close>. So the first item has the highest
  score and each next one has one less. The hypotheses: the loop visits the keys of the
  map, every record sits under its own ID (which every operation of the store
  maintains, see \<open>keyed_call\<close> and the lemmas after it), and the store holds at most
  \<open>2^31\<close> records, so that \<^verbatim>\<open>int32(10000 - k)\<close> does not wrap.
\<close>
theorem C7_query_all_newest_first:
  assumes "visits ks (history s)" and "keyed (history s)" and "len (history s) \<le> 2 ^ 31"
  shows "\<exists>ns. set ns = ran (history s) \<and> distinct (map ID ns) \<and>
           length ns = card (dom (history s)) \<and>
           sorted_wrt (\<lambda>a b. Time a \<ge> Time b) ns \<and>
           Query config fuzzy ks [] exact s = setScores 0 (map (mkItem config) ns) \<and>
           length (Query config fuzzy ks [] exact s) = length ns \<and>
           (\<forall>i < length ns. sint (Score (Query config fuzzy ks [] exact s ! i)) = 10000 - int i)"
proof -
  let ?h = "history s"
  let ?raw = "map (\<lambda>k. the (?h k)) ks"
  let ?ns = "SortStableFunc newer ?raw"
  let ?r = "Query config fuzzy ks [] exact s"
  from assms(1) have d: "distinct ks" and e: "set ks = dom ?h" by (simp_all add: visits_def)
  have ids: "map ID ?raw = ks"
  proof -
    have "\<forall>k \<in> set ks. ID (the (?h k)) = k" using e assms(2) by (auto simp: keyed_def)
    then show ?thesis by (simp add: map_idI)
  qed
  have 1: "set ?ns = ran ?h"
  proof -
    have "set ?raw = ran ?h"
    proof (intro set_eqI iffI)
      fix n assume "n \<in> set ?raw"
      then obtain k where "k \<in> set ks" "n = the (?h k)" by auto
      with e have "?h k = Some n" by auto
      then show "n \<in> ran ?h" by (rule ranI)
    next
      fix n assume "n \<in> ran ?h"
      then obtain k where k: "?h k = Some n" by (auto simp: ran_def)
      with e have "k \<in> set ks" by auto
      with k show "n \<in> set ?raw" by force
    qed
    then show ?thesis by simp
  qed
  have 2: "distinct (map ID ?ns)"
  proof -
    have "distinct (map ID ?raw)" unfolding ids by (rule d)
    then show ?thesis by (simp only: distinct_map_SortStableFunc)
  qed
  have 3: "length ?ns = card (dom ?h)" using d e by (simp add: distinct_card [symmetric])
  have 4: "sorted_wrt (\<lambda>a b. Time a \<ge> Time b) ?ns" by (rule sorted_SortStableFunc)
  have 5: "?r = setScores 0 (map (mkItem config) ?ns)" using assms(1,2) by (rule Query_all)
  have 6: "length ?r = length ?ns" by (simp add: 5)
  have 7: "\<forall>i < length ?ns. sint (Score (?r ! i)) = 10000 - int i"
  proof (intro allI impI)
    fix i assume i: "i < length ?ns"
    with 3 assms(3) have "i < 2 ^ 31" by (simp add: len_def)
    then have "sint (word_of_int (10000 - int i) :: i32) = 10000 - int i" by (rule sint_score)
    with i show "sint (Score (?r ! i)) = 10000 - int i" by (simp add: 5 setScores_nth)
  qed
  from 1 2 3 4 5 6 7 show ?thesis by blast
qed

theorem C7_query_all_newest_first_witness:
  "visits [1, 2, 3] (history (run defaultConfig
      [sample 10 [1] 0 ''a'', sample 30 [2, 1] 0 ''b'', sample 20 [3, 1, 2] 0 ''c''] (init None))) \<and>
   keyed (history (run defaultConfig
      [sample 10 [1] 0 ''a'', sample 30 [2, 1] 0 ''b'', sample 20 [3, 1, 2] 0 ''c''] (init None))) \<and>
   len (history (run defaultConfig
      [sample 10 [1] 0 ''a'', sample 30 [2, 1] 0 ''b'', sample 20 [3, 1, 2] 0 ''c''] (init None))) \<le> 2 ^ 31 \<and>
   length (Query defaultConfig (\<lambda>q t x. (0, [], 0)) [1, 2, 3] [] False (run defaultConfig
      [sample 10 [1] 0 ''a'', sample 30 [2, 1] 0 ''b'', sample 20 [3, 1, 2] 0 ''c''] (init None))) = 3 \<and>
   map Text (Query defaultConfig (\<lambda>q t x. (0, [], 0)) [1, 2, 3] [] False (run defaultConfig
      [sample 10 [1] 0 ''a'', sample 30 [2, 1] 0 ''b'', sample 20 [3, 1, 2] 0 ''c''] (init None))) =
     [''b'', ''c'', ''a''] \<and>
   map (\<lambda>e. sint (Score e)) (Query defaultConfig (\<lambda>q t x. (0, [], 0)) [1, 2, 3] [] False (run defaultConfig
      [sample 10 [1] 0 ''a'', sample 30 [2, 1] 0 ''b'', sample 20 [3, 1, 2] 0 ''c''] (init None))) =
     [10000, 9999, 9998]"
proof -
  let ?s = "run defaultConfig
      [sample 10 [1] 0 ''a'', sample 30 [2, 1] 0 ''b'', sample 20 [3, 1, 2] 0 ''c''] (init None)"
  let ?r = "Query defaultConfig (\<lambda>q t x. (0, [], 0)) [1, 2, 3] [] False ?s"
  have h: "history ?s = [1 \<mapsto> literal (sample 10 [1] 0 ''a'') 1, 2 \<mapsto> literal (sample 30 [2, 1] 0 ''b'') 2,
                          3 \<mapsto> literal (sample 20 [3, 1, 2] 0 ''c'') 3]"
    by (simp add: eval_store literal_def)
  have v: "visits [1, 2, 3] (history ?s)" unfolding h by (simp add: visits_def insert_commute)
  have k: "keyed (history ?s)" by (intro keyed_run) (simp add: init_def)
  have l: "len (history ?s) \<le> 2 ^ 31" unfolding h by (simp add: len_def)
  from C7_query_all_newest_first [OF v k l, of defaultConfig "\<lambda>q t x. (0, [], 0)" False]
  obtain ns where p: "set ns = ran (history ?s) \<and> distinct (map ID ns) \<and>
           length ns = card (dom (history ?s)) \<and>
           sorted_wrt (\<lambda>a b. Time a \<ge> Time b) ns \<and>
           ?r = setScores 0 (map (mkItem defaultConfig) ns) \<and>
           length ?r = length ns \<and>
           (\<forall>i < length ns. sint (Score (?r ! i)) = 10000 - int i)" ..
  have ns1: "length ns = card (dom (history ?s))" using p by (elim conjE)
  have ns2: "length ?r = length ns" using p by (elim conjE)
  have ns3: "\<forall>i < length ns. sint (Score (?r ! i)) = 10000 - int i" using p by (elim conjE)
  note ns = ns1 ns2 ns3
  from ns(1) have n3: "length ns = 3" unfolding h by simp
  with ns(2) have r3: "length ?r = 3" by simp
  from ns(3) n3 have sc: "sint (Score (?r ! 0)) = 10000" "sint (Score (?r ! 1)) = 9999"
      "sint (Score (?r ! 2)) = 9998"
    by simp_all
  have sc_list: "map (\<lambda>e. sint (Score e)) ?r = [10000, 9999, 9998]"
  proof (rule nth_equalityI)
    show "length (map (\<lambda>e. sint (Score e)) ?r) = length [10000, 9999, 9998 :: int]"
      using r3 by simp
  next
    fix i assume "i < length (map (\<lambda>e. sint (Score e)) ?r)"
    with r3 have i: "i = 0 \<or> i = 1 \<or> i = 2" by auto
    have "sint (Score (?r ! i)) = [10000, 9999, 9998] ! i" using i sc by auto
    with i r3 show "map (\<lambda>e. sint (Score e)) ?r ! i = [10000, 9999, 9998] ! i" by auto
  qed
  have tx: "map Text ?r = [''b'', ''c'', ''a'']"
    unfolding Query_all [OF v k] h
    by (simp add: newer_def Compare_def literal_def sample_def mkItem_def)
  from v k l r3 tx sc_list show ?thesis by blast
qed


end
